theory Spec2Isabelle
  imports Main "HOL-Library.Word" "HOL-Library.Monad_Syntax"
begin

section \<open>The memory model\<close>

text \<open>
  The library of \<^verbatim>\<open>smart_pointers.h\<close> is a pair of handle classes over a
  reference-counted control block. Its functions mutate control blocks through the
  pointer \<^verbatim>\<open>cb\<close> that several handles share, so the model has an explicit store:
  a map from block addresses to control blocks, a table of payload objects, and the
  trace of the calls that the specification observes through sentinels (allocation of a
  block, the call of a deleter, the in-place destructor call, deallocation of a block).

  \<^item> The counters are \<^verbatim>\<open>uint\<close>, that is \<^verbatim>\<open>unsigned int\<close>: 32 bits on the
    platforms the header compiles on. They are \<open>32 word\<close>, so \<open>++\<close> and \<open>--\<close> wrap.
  \<^item> A function that touches a block or an object that is no longer there has undefined
    behaviour in C++; here it returns \<open>None\<close>.
  \<^item> A member function whose body names a private member of another class that has not
    made it a friend is ill-formed: no program can call it. Here it returns \<open>None\<close> as
    well, so \<open>None\<close> reads: no program has this behaviour.
  \<^item> A block address is the serial number of the allocation: the allocator of the model
    never hands out a number twice, so a block that reuses the bytes of a freed one is
    still a new block.
  \<^item> Allocation itself is assumed to succeed.
\<close>

type_synonym uint = "32 word"

text \<open>A payload pointer \<^verbatim>\<open>T*\<close>: null, or the address of a cell of the object table.\<close>

datatype ptr = nullptr | Obj nat

text \<open>
  The template arguments \<^verbatim>\<open>Delete\<close> and \<^verbatim>\<open>Alloc\<close>. A deleter or allocator that
  the caller supplies is a black box with an identity; the model records its calls and
  lets it change nothing else.
\<close>

datatype deleter = Default_delete | Custom_delete nat

datatype allocator = Std_allocator | Custom_allocator nat

text \<open>\<^verbatim>\<open>class WeakPtr { T* ptr = nullptr; BaseControlBlock* cb = nullptr; }\<close>\<close>

record weak_ptr =
  wp_ptr :: ptr
  wp_cb :: "nat option"

text \<open>\<^verbatim>\<open>class SharedPtr { T* ptr = nullptr; BaseControlBlock* cb = nullptr; }\<close>\<close>

record shared_ptr =
  sp_ptr :: ptr
  sp_cb :: "nat option"

text \<open>
  The two classes derived from \<^verbatim>\<open>BaseControlBlock\<close>. A \<^verbatim>\<open>RegularControlBlock\<close>
  holds the pointer, the deleter and the allocator; a \<^verbatim>\<open>MakeSharedControlBlock\<close>
  holds the payload in its own bytes (\<^verbatim>\<open>char object[sizeof(T)]\<close>), which the model
  represents by the number of the cell that stands for this storage.
\<close>

datatype block_kind =
    RegularControlBlock (rcb_ptr: ptr) (rcb_deleter: deleter) (rcb_allocator: allocator)
  | MakeSharedControlBlock (object: nat) (mscb_allocator: allocator)

record control_block =
  shared_count :: uint
  weak_count :: uint
  kind :: block_kind

text \<open>
  A payload object. \<open>enable_wp\<close> is the member of the base class
  \<^verbatim>\<open>EnableSharedFromThis\<close>; it is \<open>None\<close> for a type that does not derive from it.
  \<open>in_block\<close> tells the storage of a \<^verbatim>\<open>MakeSharedControlBlock\<close> from an object
  made by a \<^verbatim>\<open>new\<close> expression. The payload types of the model have no handle
  members of their own: their destructors release no handle but \<open>enable_wp\<close>.
\<close>

record 'v obj =
  val :: 'v
  enable_wp :: "weak_ptr option"
  in_block :: bool

datatype event =
    Allocate nat
  | Deleter_call nat deleter ptr
  | Destructor_call nat nat
  | Deallocate nat allocator

text \<open>
  The store. \<open>storage\<close> is the allocator's view: the allocations that have not been
  given back. \<open>blocks\<close> holds the control blocks that have been constructed in such
  storage.
\<close>

record 'v state =
  blocks :: "nat \<rightharpoonup> control_block"
  storage :: "nat set"
  next_block :: nat
  objs :: "'v obj option list"
  trace :: "event list"

definition empty_state :: "'v state" where
  "empty_state = \<lparr>blocks = Map.empty, storage = {}, next_block = 0, objs = [], trace = []\<rparr>"

definition emit :: "event \<Rightarrow> 'v state \<Rightarrow> 'v state" where
  "emit e s = s\<lparr>trace := trace s @ [e]\<rparr>"

definition put_block :: "nat \<Rightarrow> control_block \<Rightarrow> 'v state \<Rightarrow> 'v state" where
  "put_block b blk s = s\<lparr>blocks := (blocks s)(b \<mapsto> blk)\<rparr>"

text \<open>Dereferencing a payload pointer: the object must be alive.\<close>

definition deref :: "ptr \<Rightarrow> 'v state \<Rightarrow> (nat \<times> 'v obj) option" where
  "deref p s =
     (case p of
        nullptr \<Rightarrow> None
      | Obj a \<Rightarrow>
          if a < length (objs s)
          then (case objs s ! a of None \<Rightarrow> None | Some ob \<Rightarrow> Some (a, ob))
          else None)"

text \<open>A \<^verbatim>\<open>new U(...)\<close> expression of the client: a fresh cell.\<close>

definition new_obj :: "'v \<Rightarrow> bool \<Rightarrow> 'v state \<Rightarrow> ptr \<times> 'v state" where
  "new_obj v esft s =
     (Obj (length (objs s)),
      s\<lparr>objs := objs s @
         [Some \<lparr>val = v,
                enable_wp = (if esft then Some \<lparr>wp_ptr = nullptr, wp_cb = None\<rparr> else None),
                in_block = False\<rparr>]\<rparr>)"

section \<open>Control blocks\<close>

text \<open>
  \<^verbatim>\<open>RCB_AllocTraits::deallocate(RCB_allocator, this, 1)\<close> and its twin in
  \<^verbatim>\<open>MakeSharedControlBlock\<close>: the block's bytes go back to the allocator that the
  block stores. No destructor runs here.
\<close>

definition deallocate :: "nat \<Rightarrow> 'v state \<Rightarrow> 'v state option" where
  "deallocate b s =
     (case blocks s b of
        None \<Rightarrow> None
      | Some blk \<Rightarrow>
          (case kind blk of
             RegularControlBlock p d al \<Rightarrow>
               Some (emit (Deallocate b al)
                 (s\<lparr>blocks := (blocks s)(b := None), storage := storage s - {b}\<rparr>))
           | MakeSharedControlBlock a al \<Rightarrow>
               Some (emit (Deallocate b al)
                 (s\<lparr>blocks := (blocks s)(b := None), storage := storage s - {b}\<rparr>))))"

text \<open>
  \<^verbatim>\<open>~WeakPtr()\<close>: nothing for an empty handle; otherwise \<^verbatim>\<open>--(cb->weak_count)\<close>
  and, when both counters are zero, \<^verbatim>\<open>cb->deallocate()\<close>.
\<close>

definition WeakPtr_dtor :: "weak_ptr \<Rightarrow> 'v state \<Rightarrow> 'v state option" where
  "WeakPtr_dtor w s =
     (case wp_cb w of
        None \<Rightarrow> Some s
      | Some b \<Rightarrow>
          (case blocks s b of
             None \<Rightarrow> None
           | Some blk \<Rightarrow>
               let blk' = blk\<lparr>weak_count := weak_count blk - 1\<rparr>;
                   s1 = put_block b blk' s
               in if weak_count blk' = 0 \<and> shared_count blk' = 0
                  then deallocate b s1
                  else Some s1))"

text \<open>
  The destructor of a payload object, \<^verbatim>\<open>p->~T()\<close>: it destroys the members, so the
  embedded weak handle of a self-observing type is released. Afterwards the object is
  dead; its storage is still there.
\<close>

definition destroy_at :: "ptr \<Rightarrow> 'v state \<Rightarrow> 'v state option" where
  "destroy_at p s =
     (case deref p s of
        None \<Rightarrow> None
      | Some (a, ob) \<Rightarrow>
          do {
            s1 \<leftarrow> (case enable_wp ob of None \<Rightarrow> Some s | Some w \<Rightarrow> WeakPtr_dtor w s);
            Some (s1\<lparr>objs := (objs s1)[a := None]\<rparr>)
          })"

text \<open>
  \<^verbatim>\<open>std::default_delete<U>()(p)\<close>, that is \<^verbatim>\<open>delete p\<close>: nothing for a null
  pointer; otherwise the destructor, then the storage is freed. The object must have been
  made by \<^verbatim>\<open>new\<close>.
\<close>

definition delete_expr :: "ptr \<Rightarrow> 'v state \<Rightarrow> 'v state option" where
  "delete_expr p s =
     (case p of
        nullptr \<Rightarrow> Some s
      | Obj a \<Rightarrow>
          (case deref p s of
             None \<Rightarrow> None
           | Some (a', ob) \<Rightarrow> if in_block ob then None else destroy_at p s))"

text \<open>\<^verbatim>\<open>deleter(ptr)\<close> of block \<open>b\<close>.\<close>

definition call_deleter :: "nat \<Rightarrow> deleter \<Rightarrow> ptr \<Rightarrow> 'v state \<Rightarrow> 'v state option" where
  "call_deleter b d p s =
     (case d of
        Default_delete \<Rightarrow> delete_expr p (emit (Deleter_call b d p) s)
      | Custom_delete k \<Rightarrow> Some (emit (Deleter_call b d p) s))"

text \<open>
  \<^verbatim>\<open>RegularControlBlock::destroy() { deleter(ptr); ptr = nullptr; }\<close> and
  \<^verbatim>\<open>MakeSharedControlBlock::destroy()\<close>, which runs the destructor on the storage of
  the block. The assignment \<^verbatim>\<open>ptr = nullptr\<close> writes to the block, which must still
  be there after the deleter has returned.
\<close>

definition destroy :: "nat \<Rightarrow> 'v state \<Rightarrow> 'v state option" where
  "destroy b s =
     (case blocks s b of
        None \<Rightarrow> None
      | Some blk \<Rightarrow>
          (case kind blk of
             RegularControlBlock p d al \<Rightarrow>
               do {
                 s1 \<leftarrow> call_deleter b d p s;
                 (case blocks s1 b of
                    None \<Rightarrow> None
                  | Some blk1 \<Rightarrow>
                      Some (put_block b (blk1\<lparr>kind := RegularControlBlock nullptr d al\<rparr>) s1))
               }
           | MakeSharedControlBlock a al \<Rightarrow>
               destroy_at (Obj a) (emit (Destructor_call b a) s)))"

section \<open>SharedPtr\<close>

text \<open>\<^verbatim>\<open>SharedPtr() {}\<close>\<close>

definition SharedPtr :: shared_ptr where
  "SharedPtr = \<lparr>sp_ptr = nullptr, sp_cb = None\<rparr>"

text \<open>\<^verbatim>\<open>++(cb->shared_count)\<close> and \<^verbatim>\<open>++(cb->weak_count)\<close>\<close>

definition inc_shared_count :: "nat \<Rightarrow> 'v state \<Rightarrow> 'v state option" where
  "inc_shared_count b s =
     (case blocks s b of
        None \<Rightarrow> None
      | Some blk \<Rightarrow> Some (put_block b (blk\<lparr>shared_count := shared_count blk + 1\<rparr>) s))"

definition inc_weak_count :: "nat \<Rightarrow> 'v state \<Rightarrow> 'v state option" where
  "inc_weak_count b s =
     (case blocks s b of
        None \<Rightarrow> None
      | Some blk \<Rightarrow> Some (put_block b (blk\<lparr>weak_count := weak_count blk + 1\<rparr>) s))"

text \<open>\<^verbatim>\<open>SharedPtr(const SharedPtr& shp)\<close>\<close>

definition SharedPtr_copy :: "shared_ptr \<Rightarrow> 'v state \<Rightarrow> (shared_ptr \<times> 'v state) option" where
  "SharedPtr_copy shp s =
     (let this = \<lparr>sp_ptr = sp_ptr shp, sp_cb = sp_cb shp\<rparr>
      in case sp_cb this of
           None \<Rightarrow> Some (this, s)
         | Some b \<Rightarrow> do { s1 \<leftarrow> inc_shared_count b s; Some (this, s1) })"

text \<open>
  \<^verbatim>\<open>SharedPtr(SharedPtr&& shp)\<close>: the new handle and what is left of the source.
  No block is touched.
\<close>

definition SharedPtr_move :: "shared_ptr \<Rightarrow> shared_ptr \<times> shared_ptr" where
  "SharedPtr_move shp =
     (\<lparr>sp_ptr = sp_ptr shp, sp_cb = sp_cb shp\<rparr>, shp\<lparr>sp_cb := None, sp_ptr := nullptr\<rparr>)"

text \<open>The private \<^verbatim>\<open>SharedPtr(const WeakPtr<T>& wp)\<close>\<close>

definition SharedPtr_from_weak :: "weak_ptr \<Rightarrow> 'v state \<Rightarrow> (shared_ptr \<times> 'v state) option" where
  "SharedPtr_from_weak wp s =
     (let this = \<lparr>sp_ptr = wp_ptr wp, sp_cb = wp_cb wp\<rparr>
      in case sp_cb this of
           None \<Rightarrow> Some (this, s)
         | Some b \<Rightarrow> do { s1 \<leftarrow> inc_shared_count b s; Some (this, s1) })"

text \<open>\<^verbatim>\<open>~SharedPtr()\<close>\<close>

definition SharedPtr_dtor :: "shared_ptr \<Rightarrow> 'v state \<Rightarrow> 'v state option" where
  "SharedPtr_dtor this s =
     (case sp_cb this of
        None \<Rightarrow> Some s
      | Some b \<Rightarrow>
          (case blocks s b of
             None \<Rightarrow> None
           | Some blk \<Rightarrow>
               let blk' = blk\<lparr>shared_count := shared_count blk - 1\<rparr>;
                   s1 = put_block b blk' s
               in if shared_count blk' = 0
                  then if weak_count blk' = 0
                       then do { s2 \<leftarrow> destroy b s1; deallocate b s2 }
                       else destroy b s1
                  else Some s1))"

text \<open>\<^verbatim>\<open>use_count()\<close> and \<^verbatim>\<open>get()\<close>\<close>

definition SharedPtr_use_count :: "shared_ptr \<Rightarrow> 'v state \<Rightarrow> uint option" where
  "SharedPtr_use_count this s =
     (case sp_cb this of
        None \<Rightarrow> Some 0
      | Some b \<Rightarrow> (case blocks s b of None \<Rightarrow> None | Some blk \<Rightarrow> Some (shared_count blk)))"

definition get :: "shared_ptr \<Rightarrow> ptr" where
  "get this = sp_ptr this"

text \<open>\<^verbatim>\<open>swap(SharedPtr& shp)\<close>: the new values of \<^verbatim>\<open>*this\<close> and of \<^verbatim>\<open>shp\<close>.\<close>

definition SharedPtr_swap :: "shared_ptr \<Rightarrow> shared_ptr \<Rightarrow> shared_ptr \<times> shared_ptr" where
  "SharedPtr_swap this shp =
     (this\<lparr>sp_cb := sp_cb shp, sp_ptr := sp_ptr shp\<rparr>,
      shp\<lparr>sp_cb := sp_cb this, sp_ptr := sp_ptr this\<rparr>)"

text \<open>
  \<^verbatim>\<open>reset() { SharedPtr().swap(*this); }\<close>: the temporary takes the old value and is
  destroyed at the end of the statement.
\<close>

definition reset :: "shared_ptr \<Rightarrow> 'v state \<Rightarrow> (shared_ptr \<times> 'v state) option" where
  "reset this s =
     (let (tmp, this') = SharedPtr_swap SharedPtr this
      in do { s1 \<leftarrow> SharedPtr_dtor tmp s; Some (this', s1) })"

section \<open>WeakPtr\<close>

text \<open>\<^verbatim>\<open>WeakPtr() {}\<close>\<close>

definition WeakPtr :: weak_ptr where
  "WeakPtr = \<lparr>wp_ptr = nullptr, wp_cb = None\<rparr>"

text \<open>
  The body of \<^verbatim>\<open>WeakPtr(SharedPtr<U> shp)\<close>, and the constructor as a caller with a
  handle \<^verbatim>\<open>s\<close> sees it: the parameter is a copy of \<^verbatim>\<open>s\<close>, destroyed when the
  constructor is done.
\<close>

definition WeakPtr_ctor_body :: "shared_ptr \<Rightarrow> 'v state \<Rightarrow> (weak_ptr \<times> 'v state) option" where
  "WeakPtr_ctor_body shp s =
     (let this = \<lparr>wp_ptr = sp_ptr shp, wp_cb = sp_cb shp\<rparr>
      in case wp_cb this of
           None \<Rightarrow> Some (this, s)
         | Some b \<Rightarrow> do { s1 \<leftarrow> inc_weak_count b s; Some (this, s1) })"

definition WeakPtr_from_shared :: "shared_ptr \<Rightarrow> 'v state \<Rightarrow> (weak_ptr \<times> 'v state) option" where
  "WeakPtr_from_shared sp s =
     do {
       (shp, s1) \<leftarrow> SharedPtr_copy sp s;
       (this, s2) \<leftarrow> WeakPtr_ctor_body shp s1;
       s3 \<leftarrow> SharedPtr_dtor shp s2;
       Some (this, s3)
     }"

text \<open>\<^verbatim>\<open>WeakPtr(const WeakPtr& wp)\<close> and \<^verbatim>\<open>WeakPtr(WeakPtr&& wp)\<close>\<close>

definition WeakPtr_copy :: "weak_ptr \<Rightarrow> 'v state \<Rightarrow> (weak_ptr \<times> 'v state) option" where
  "WeakPtr_copy wp s =
     (let this = \<lparr>wp_ptr = wp_ptr wp, wp_cb = wp_cb wp\<rparr>
      in case wp_cb this of
           None \<Rightarrow> Some (this, s)
         | Some b \<Rightarrow> do { s1 \<leftarrow> inc_weak_count b s; Some (this, s1) })"

definition WeakPtr_move :: "weak_ptr \<Rightarrow> weak_ptr \<times> weak_ptr" where
  "WeakPtr_move wp =
     (\<lparr>wp_ptr = wp_ptr wp, wp_cb = wp_cb wp\<rparr>, wp\<lparr>wp_ptr := nullptr, wp_cb := None\<rparr>)"

definition WeakPtr_swap :: "weak_ptr \<Rightarrow> weak_ptr \<Rightarrow> weak_ptr \<times> weak_ptr" where
  "WeakPtr_swap this wp =
     (this\<lparr>wp_ptr := wp_ptr wp, wp_cb := wp_cb wp\<rparr>,
      wp\<lparr>wp_ptr := wp_ptr this, wp_cb := wp_cb this\<rparr>)"

text \<open>\<^verbatim>\<open>expired()\<close>, \<^verbatim>\<open>lock()\<close> and \<^verbatim>\<open>use_count()\<close>\<close>

definition expired :: "weak_ptr \<Rightarrow> 'v state \<Rightarrow> bool option" where
  "expired this s =
     (case wp_cb this of
        None \<Rightarrow> Some True
      | Some b \<Rightarrow> (case blocks s b of None \<Rightarrow> None | Some blk \<Rightarrow> Some (shared_count blk = 0)))"

definition lock :: "weak_ptr \<Rightarrow> 'v state \<Rightarrow> (shared_ptr \<times> 'v state) option" where
  "lock this s =
     do {
       e \<leftarrow> expired this s;
       if e then Some (SharedPtr, s) else SharedPtr_from_weak this s
     }"

definition WeakPtr_use_count :: "weak_ptr \<Rightarrow> 'v state \<Rightarrow> uint option" where
  "WeakPtr_use_count this s =
     (case wp_cb this of
        None \<Rightarrow> Some 0
      | Some b \<Rightarrow> (case blocks s b of None \<Rightarrow> None | Some blk \<Rightarrow> Some (shared_count blk)))"

section \<open>Access to private members\<close>

text \<open>
  The members \<^verbatim>\<open>ptr\<close> and \<^verbatim>\<open>cb\<close> of both handle classes, the constructor
  \<^verbatim>\<open>SharedPtr(const WeakPtr<T>&)\<close> and the member \<^verbatim>\<open>enable_wp\<close> of
  \<^verbatim>\<open>EnableSharedFromThis\<close> are private. The friend declarations of the header:
  \<^verbatim>\<open>SharedPtr\<close> names \<^verbatim>\<open>allocateShared\<close>, \<^verbatim>\<open>WeakPtr\<close> and
  \<^verbatim>\<open>SharedPtr\<close>; \<^verbatim>\<open>WeakPtr\<close> names \<^verbatim>\<open>SharedPtr\<close> and \<^verbatim>\<open>WeakPtr\<close>;
  \<^verbatim>\<open>EnableSharedFromThis\<close> names \<^verbatim>\<open>SharePtr\<close>, a class template that the
  declaration itself introduces and that nothing defines.
\<close>

datatype scope =
    SharedPtr_scope
  | WeakPtr_scope
  | EnableSharedFromThis_scope
  | allocateShared_scope
  | SharePtr_scope

definition friends :: "scope \<Rightarrow> scope list" where
  "friends cls =
     (case cls of
        SharedPtr_scope \<Rightarrow> [allocateShared_scope, WeakPtr_scope, SharedPtr_scope]
      | WeakPtr_scope \<Rightarrow> [SharedPtr_scope, WeakPtr_scope]
      | EnableSharedFromThis_scope \<Rightarrow> [SharePtr_scope]
      | allocateShared_scope \<Rightarrow> []
      | SharePtr_scope \<Rightarrow> [])"

text \<open>Code in \<open>user\<close> may name the private members of \<open>cls\<close>.\<close>

definition accessible :: "scope \<Rightarrow> scope \<Rightarrow> bool" where
  "accessible user cls \<longleftrightarrow> user = cls \<or> user \<in> set (friends cls)"

text \<open>
  Every access of the header to a private member of another class is from a friend, but
  two: the adopting constructors of \<^verbatim>\<open>SharedPtr\<close> assign to \<^verbatim>\<open>enable_wp\<close>, and
  \<^verbatim>\<open>shared_from_this\<close> calls \<^verbatim>\<open>SharedPtr(const WeakPtr<T>&)\<close>. These two carry
  their check in the model; the others (\<^verbatim>\<open>WeakPtr\<close> reading a \<^verbatim>\<open>SharedPtr\<close> and
  calling its private constructor in \<^verbatim>\<open>lock\<close>, \<^verbatim>\<open>SharedPtr\<close> reading a
  \<^verbatim>\<open>WeakPtr\<close>, \<^verbatim>\<open>allocateShared\<close> writing a \<^verbatim>\<open>SharedPtr\<close>) pass it, as
  \<open>header_accesses\<close> below records.
\<close>

section \<open>Adoption, self-observation and the factory\<close>

text \<open>
  The statement \<^verbatim>\<open>other_ptr->enable_wp = *this;\<close> of the three adopting
  constructors. The right-hand side is converted by \<^verbatim>\<open>WeakPtr(SharedPtr<U> shp)\<close>,
  whose parameter is a copy of \<^verbatim>\<open>*this\<close>; the temporary weak handle is then
  move-assigned: \<^verbatim>\<open>WeakPtr copy(std::move(wp)); swap(copy);\<close>, after which
  \<^verbatim>\<open>copy\<close> holds the old value of \<^verbatim>\<open>enable_wp\<close> and is destroyed. At the end
  of the statement the emptied temporary and the parameter are destroyed. The statement
  stands in a member of \<^verbatim>\<open>SharedPtr\<close> and names the private member \<^verbatim>\<open>enable_wp\<close>
  of \<^verbatim>\<open>EnableSharedFromThis\<close>.
\<close>

definition assign_enable_wp :: "ptr \<Rightarrow> shared_ptr \<Rightarrow> 'v state \<Rightarrow> 'v state option" where
  "assign_enable_wp other_ptr this s =
     (if \<not> accessible SharedPtr_scope EnableSharedFromThis_scope then None
      else
        (case deref other_ptr s of
           None \<Rightarrow> None
         | Some (a, ob) \<Rightarrow>
             (case enable_wp ob of
                None \<Rightarrow> None
              | Some old \<Rightarrow>
                  do {
                    (shp, s1) \<leftarrow> SharedPtr_copy this s;
                    (tmp, s2) \<leftarrow> WeakPtr_ctor_body shp s1;
                    (copy, tmp') \<leftarrow> Some (WeakPtr_move tmp);
                    (new, copy') \<leftarrow> Some (WeakPtr_swap old copy);
                    s3 \<leftarrow> Some (s2\<lparr>objs := (objs s2)[a := Some (ob\<lparr>enable_wp := Some new\<rparr>)]\<rparr>);
                    s4 \<leftarrow> WeakPtr_dtor copy' s3;
                    s5 \<leftarrow> WeakPtr_dtor tmp' s4;
                    SharedPtr_dtor shp s5
                  })))"

text \<open>
  \<^verbatim>\<open>RegularControlBlock(uint shc, uint wc, T* other_ptr, const Delete&, const Alloc&)\<close>
\<close>

definition RegularControlBlock_ctor ::
  "uint \<Rightarrow> uint \<Rightarrow> ptr \<Rightarrow> deleter \<Rightarrow> allocator \<Rightarrow> control_block" where
  "RegularControlBlock_ctor shc wc other_ptr other_deleter other_allocator =
     \<lparr>shared_count = shc, weak_count = wc,
      kind = RegularControlBlock other_ptr other_deleter other_allocator\<rparr>"

text \<open>Fresh storage for one block, from a \<^verbatim>\<open>new\<close> expression or an allocator.\<close>

definition allocate :: "'v state \<Rightarrow> nat \<times> 'v state" where
  "allocate s =
     (next_block s,
      emit (Allocate (next_block s))
        (s\<lparr>storage := insert (next_block s) (storage s), next_block := Suc (next_block s)\<rparr>))"

text \<open>
  \<^verbatim>\<open>template <typename U> SharedPtr(U* other_ptr)\<close>. The flag \<open>esft\<close> is
  \<^verbatim>\<open>std::is_base_of_v<EnableSharedFromThis<U>, U>\<close>, the condition of the
  \<^verbatim>\<open>if constexpr\<close>: the assignment to \<^verbatim>\<open>enable_wp\<close> is part of the constructor
  for the types \<^verbatim>\<open>U\<close> that derive from \<^verbatim>\<open>EnableSharedFromThis<U>\<close> only.
\<close>

definition SharedPtr_adopt ::
  "bool \<Rightarrow> ptr \<Rightarrow> 'v state \<Rightarrow> (shared_ptr \<times> 'v state) option" where
  "SharedPtr_adopt esft other_ptr s =
     (let (b, s1) = allocate s;
          s2 = put_block b
                 (RegularControlBlock_ctor 1 0 other_ptr Default_delete Std_allocator) s1;
          this = \<lparr>sp_ptr = other_ptr, sp_cb = Some b\<rparr>
      in if esft
         then do { s3 \<leftarrow> assign_enable_wp other_ptr this s2; Some (this, s3) }
         else Some (this, s2))"

text \<open>\<^verbatim>\<open>template <typename U, typename Delete> SharedPtr(U* other_ptr, Delete deleter)\<close>\<close>

definition SharedPtr_adopt_deleter ::
  "bool \<Rightarrow> ptr \<Rightarrow> deleter \<Rightarrow> 'v state \<Rightarrow> (shared_ptr \<times> 'v state) option" where
  "SharedPtr_adopt_deleter esft other_ptr deleter s =
     (let (b, s1) = allocate s;
          s2 = put_block b
                 (RegularControlBlock_ctor 1 0 other_ptr deleter Std_allocator) s1;
          this = \<lparr>sp_ptr = other_ptr, sp_cb = Some b\<rparr>
      in if esft
         then do { s3 \<leftarrow> assign_enable_wp other_ptr this s2; Some (this, s3) }
         else Some (this, s2))"

text \<open>
  \<^verbatim>\<open>SharedPtr(U* other_ptr, Delete deleter, Alloc allocator)\<close>: the block is
  default-constructed in storage from the allocator (both counters zero, \<^verbatim>\<open>ptr\<close>
  null), and then \<^verbatim>\<open>shared_count\<close>, \<^verbatim>\<open>deleter\<close> and \<^verbatim>\<open>allocator\<close> are
  assigned. The member \<^verbatim>\<open>ptr\<close> of the block is not assigned.
\<close>

definition SharedPtr_adopt_deleter_alloc ::
  "bool \<Rightarrow> ptr \<Rightarrow> deleter \<Rightarrow> allocator \<Rightarrow> 'v state \<Rightarrow> (shared_ptr \<times> 'v state) option" where
  "SharedPtr_adopt_deleter_alloc esft other_ptr deleter allocator s =
     (let (b, s1) = allocate s;
          s2 = put_block b
                 \<lparr>shared_count = 1, weak_count = 0,
                  kind = RegularControlBlock nullptr deleter allocator\<rparr> s1;
          this = \<lparr>sp_ptr = other_ptr, sp_cb = Some b\<rparr>
      in if esft
         then do { s3 \<leftarrow> assign_enable_wp other_ptr this s2; Some (this, s3) }
         else Some (this, s2))"

text \<open>
  \<^verbatim>\<open>EnableSharedFromThis::shared_from_this() { return SharedPtr<T>(enable_wp); }\<close>,
  called on the object at \<open>this\<close>. The constructor it calls is the private
  \<^verbatim>\<open>SharedPtr(const WeakPtr<T>&)\<close>, which asks nothing about expiry.
\<close>

definition shared_from_this :: "ptr \<Rightarrow> 'v state \<Rightarrow> (shared_ptr \<times> 'v state) option" where
  "shared_from_this this s =
     (if \<not> accessible EnableSharedFromThis_scope SharedPtr_scope then None
      else
        (case deref this s of
           None \<Rightarrow> None
         | Some (a, ob) \<Rightarrow>
             (case enable_wp ob of None \<Rightarrow> None | Some w \<Rightarrow> SharedPtr_from_weak w s)))"

text \<open>
  \<^verbatim>\<open>allocateShared<T>(alloc, args...)\<close>. \<open>ctor\<close> is the constructor of \<^verbatim>\<open>T\<close>
  that the arguments select: it returns the payload, or throws (\<open>Inl\<close>). \<open>esft\<close> tells
  whether \<^verbatim>\<open>T\<close> derives from \<^verbatim>\<open>EnableSharedFromThis\<close>; the constructor leaves the
  embedded weak handle empty. The function has no \<^verbatim>\<open>try\<close> block: an exception of the
  constructor leaves it between \<^verbatim>\<open>allocate\<close> and \<^verbatim>\<open>construct\<close>. The allocator
  member of the block is default-constructed and assigned before the function returns;
  the model stores the final value at once.
\<close>

definition allocateShared ::
  "('a \<Rightarrow> 'x + 'v) \<Rightarrow> bool \<Rightarrow> allocator \<Rightarrow> 'a \<Rightarrow> 'v state \<Rightarrow> ('x + shared_ptr) \<times> 'v state" where
  "allocateShared ctor esft alloc args s =
     (let shp = SharedPtr;
          (MSCB_ptr, s1) = allocate s
      in case ctor args of
           Inl x \<Rightarrow> (Inl x, s1)
         | Inr v \<Rightarrow>
             let a = length (objs s1);
                 s2 = s1\<lparr>objs := objs s1 @
                        [Some \<lparr>val = v,
                               enable_wp = (if esft then Some WeakPtr else None),
                               in_block = True\<rparr>]\<rparr>;
                 s3 = put_block MSCB_ptr
                        \<lparr>shared_count = 0, weak_count = 0,
                         kind = MakeSharedControlBlock a alloc\<rparr> s2;
                 shp1 = shp\<lparr>sp_cb := Some MSCB_ptr\<rparr>;
                 s4 = put_block MSCB_ptr
                        \<lparr>shared_count = 1, weak_count = 0,
                         kind = MakeSharedControlBlock a alloc\<rparr> s3;
                 shp2 = shp1\<lparr>sp_ptr := Obj a\<rparr>
             in (Inr shp2, s4))"

text \<open>\<^verbatim>\<open>makeShared<T>(args...)\<close>\<close>

definition makeShared ::
  "('a \<Rightarrow> 'x + 'v) \<Rightarrow> bool \<Rightarrow> 'a \<Rightarrow> 'v state \<Rightarrow> ('x + shared_ptr) \<times> 'v state" where
  "makeShared ctor esft args s = allocateShared ctor esft Std_allocator args s"

section \<open>Programs over handles\<close>

text \<open>
  A client program is a sequence of operations on its handles. The configuration holds
  the store and the two tables of handle objects the client has made so far; an entry is
  \<open>None\<close> once the destructor of the handle has run. An operation on an entry that is
  not alive, one that runs into undefined behaviour, or one that is ill-formed has no
  successor configuration.
\<close>

record 'v config =
  heap :: "'v state"
  sps :: "shared_ptr option list"
  wps :: "weak_ptr option list"

definition init :: "'v config" where
  "init = \<lparr>heap = empty_state, sps = [], wps = []\<rparr>"

datatype 'v op =
    New 'v bool
  | Adopt bool ptr
  | Adopt_deleter bool ptr deleter
  | Adopt_deleter_alloc bool ptr deleter allocator
  | Make "unit + 'v" bool allocator
  | Copy nat
  | Move nat
  | Release nat
  | Reset nat
  | Weak_from nat
  | Weak_copy nat
  | Weak_move nat
  | Weak_release nat
  | Lock nat

definition sp_at :: "'v config \<Rightarrow> nat \<Rightarrow> shared_ptr option" where
  "sp_at c i = (if i < length (sps c) then sps c ! i else None)"

definition wp_at :: "'v config \<Rightarrow> nat \<Rightarrow> weak_ptr option" where
  "wp_at c j = (if j < length (wps c) then wps c ! j else None)"

definition new_sp :: "'v config \<Rightarrow> (shared_ptr \<times> 'v state) option \<Rightarrow> 'v config option" where
  "new_sp c r =
     (case r of
        None \<Rightarrow> None
      | Some (h, s) \<Rightarrow> Some (c\<lparr>heap := s, sps := sps c @ [Some h]\<rparr>))"

definition new_wp :: "'v config \<Rightarrow> (weak_ptr \<times> 'v state) option \<Rightarrow> 'v config option" where
  "new_wp c r =
     (case r of
        None \<Rightarrow> None
      | Some (w, s) \<Rightarrow> Some (c\<lparr>heap := s, wps := wps c @ [Some w]\<rparr>))"

fun exec :: "'v op \<Rightarrow> 'v config \<Rightarrow> 'v config option" where
  "exec (New v esft) c = Some (c\<lparr>heap := snd (new_obj v esft (heap c))\<rparr>)"
| "exec (Adopt esft p) c = new_sp c (SharedPtr_adopt esft p (heap c))"
| "exec (Adopt_deleter esft p d) c = new_sp c (SharedPtr_adopt_deleter esft p d (heap c))"
| "exec (Adopt_deleter_alloc esft p d al) c =
     new_sp c (SharedPtr_adopt_deleter_alloc esft p d al (heap c))"
| "exec (Make r esft al) c =
     (case allocateShared (\<lambda>_. r) esft al () (heap c) of
        (Inl x, s) \<Rightarrow> Some (c\<lparr>heap := s\<rparr>)
      | (Inr h, s) \<Rightarrow> Some (c\<lparr>heap := s, sps := sps c @ [Some h]\<rparr>))"
| "exec (Copy i) c =
     (case sp_at c i of
        None \<Rightarrow> None
      | Some h \<Rightarrow> new_sp c (SharedPtr_copy h (heap c)))"
| "exec (Move i) c =
     (case sp_at c i of
        None \<Rightarrow> None
      | Some h \<Rightarrow>
          let (h', src) = SharedPtr_move h
          in Some (c\<lparr>sps := (sps c)[i := Some src] @ [Some h']\<rparr>))"
| "exec (Release i) c =
     (case sp_at c i of
        None \<Rightarrow> None
      | Some h \<Rightarrow>
          (case SharedPtr_dtor h (heap c) of
             None \<Rightarrow> None
           | Some s \<Rightarrow> Some (c\<lparr>heap := s, sps := (sps c)[i := None]\<rparr>)))"
| "exec (Reset i) c =
     (case sp_at c i of
        None \<Rightarrow> None
      | Some h \<Rightarrow>
          (case reset h (heap c) of
             None \<Rightarrow> None
           | Some (h', s) \<Rightarrow> Some (c\<lparr>heap := s, sps := (sps c)[i := Some h']\<rparr>)))"
| "exec (Weak_from i) c =
     (case sp_at c i of
        None \<Rightarrow> None
      | Some h \<Rightarrow> new_wp c (WeakPtr_from_shared h (heap c)))"
| "exec (Weak_copy j) c =
     (case wp_at c j of
        None \<Rightarrow> None
      | Some w \<Rightarrow> new_wp c (WeakPtr_copy w (heap c)))"
| "exec (Weak_move j) c =
     (case wp_at c j of
        None \<Rightarrow> None
      | Some w \<Rightarrow>
          let (w', src) = WeakPtr_move w
          in Some (c\<lparr>wps := (wps c)[j := Some src] @ [Some w']\<rparr>))"
| "exec (Weak_release j) c =
     (case wp_at c j of
        None \<Rightarrow> None
      | Some w \<Rightarrow>
          (case WeakPtr_dtor w (heap c) of
             None \<Rightarrow> None
           | Some s \<Rightarrow> Some (c\<lparr>heap := s, wps := (wps c)[j := None]\<rparr>)))"
| "exec (Lock j) c =
     (case wp_at c j of
        None \<Rightarrow> None
      | Some w \<Rightarrow> new_sp c (lock w (heap c)))"

fun run :: "'v op list \<Rightarrow> 'v config \<Rightarrow> 'v config option" where
  "run [] c = Some c"
| "run (x # xs) c = (case exec x c of None \<Rightarrow> None | Some c' \<Rightarrow> run xs c')"

text \<open>
  The handles that refer to a block: the live strong handles of the client, and the
  live weak handles, those of the client and those embedded in live objects.
\<close>

definition sp_block :: "shared_ptr option \<Rightarrow> nat option" where
  "sp_block x = (case x of None \<Rightarrow> None | Some h \<Rightarrow> sp_cb h)"

definition wp_block :: "weak_ptr option \<Rightarrow> nat option" where
  "wp_block x = (case x of None \<Rightarrow> None | Some w \<Rightarrow> wp_cb w)"

definition obj_block :: "'v obj option \<Rightarrow> nat option" where
  "obj_block x = (case x of None \<Rightarrow> None | Some ob \<Rightarrow> wp_block (enable_wp ob))"

definition strong_refs :: "'v config \<Rightarrow> nat \<Rightarrow> nat" where
  "strong_refs c b = count_list (map sp_block (sps c)) (Some b)"

definition embedded_refs :: "'v state \<Rightarrow> nat \<Rightarrow> nat" where
  "embedded_refs s b = count_list (map obj_block (objs s)) (Some b)"

definition weak_refs :: "'v config \<Rightarrow> nat \<Rightarrow> nat" where
  "weak_refs c b = count_list (map wp_block (wps c)) (Some b) + embedded_refs (heap c) b"

text \<open>
  A property of every configuration that a program passes through, the first and the
  last included.
\<close>

fun always :: "('v config \<Rightarrow> bool) \<Rightarrow> 'v op list \<Rightarrow> 'v config \<Rightarrow> bool" where
  "always P [] c = P c"
| "always P (x # xs) c =
     (P c \<and> (case exec x c of None \<Rightarrow> True | Some c' \<Rightarrow> always P xs c'))"

text \<open>
  Fewer than \<open>2\<^sup>3\<^sup>2\<close> strong handles, or weak handles, on block \<open>b\<close> are alive: their
  number is a value of \<^verbatim>\<open>uint\<close>.
\<close>

definition few_strong :: "nat \<Rightarrow> 'v config \<Rightarrow> bool" where
  "few_strong b c \<longleftrightarrow> strong_refs c b < 2 ^ 32"


section \<open>The life of a block, read off the trace\<close>

text \<open>
  The sentinels of one block in the order in which they may fire: its storage is
  allocated, its payload is destroyed (the deleter call or the in-place destructor call),
  its storage is released. Any other order, and any repetition, ends in \<open>Bad\<close>.
\<close>

datatype phase = Unallocated | Allocated | Destroyed | Released | Bad

fun phase_step :: "nat \<Rightarrow> phase \<Rightarrow> event \<Rightarrow> phase" where
  "phase_step b ph (Allocate b') =
     (if b' = b then (if ph = Unallocated then Allocated else Bad) else ph)"
| "phase_step b ph (Deleter_call b' d p) =
     (if b' = b then (if ph = Allocated then Destroyed else Bad) else ph)"
| "phase_step b ph (Destructor_call b' a) =
     (if b' = b then (if ph = Allocated then Destroyed else Bad) else ph)"
| "phase_step b ph (Deallocate b' al) =
     (if b' = b then (if ph = Destroyed then Released else Bad) else ph)"


fun is_destroy :: "nat \<Rightarrow> event \<Rightarrow> bool" where
  "is_destroy b (Deleter_call b' d p) = (b' = b)"
| "is_destroy b (Destructor_call b' a) = (b' = b)"
| "is_destroy b _ = False"

fun is_deallocate :: "nat \<Rightarrow> event \<Rightarrow> bool" where
  "is_deallocate b (Deallocate b' al) = (b' = b)"
| "is_deallocate b _ = False"

text \<open>The payload destruction that \<open>destroy()\<close> of a block performs on a pointer.\<close>

fun destroys :: "nat \<Rightarrow> ptr \<Rightarrow> event \<Rightarrow> bool" where
  "destroys b p (Deleter_call b' d p') = (b' = b \<and> p' = p)"
| "destroys b p (Destructor_call b' a) = (b' = b \<and> p = Obj a)"
| "destroys b p _ = False"

text \<open>
  The number of copies after which the strong counter of a block that has one strong
  handle stands at \<open>2\<^sup>3\<^sup>2 - 1\<close>, the largest value of \<^verbatim>\<open>uint\<close>.
\<close>

definition wrap_copies :: nat where
  "wrap_copies = 2 ^ 32 - 2"

section \<open>One block at a time\<close>

text \<open>The allocator and the payload pointer that a block holds.\<close>

definition alloc_of :: "block_kind \<Rightarrow> allocator" where
  "alloc_of k = (case k of RegularControlBlock p d al \<Rightarrow> al | MakeSharedControlBlock a al \<Rightarrow> al)"

definition payload_ptr :: "block_kind \<Rightarrow> ptr" where
  "payload_ptr k = (case k of RegularControlBlock p d al \<Rightarrow> p | MakeSharedControlBlock a al \<Rightarrow> Obj a)"

text \<open>The events of one block.\<close>

fun block_of :: "event \<Rightarrow> nat" where
  "block_of (Allocate b) = b"
| "block_of (Deleter_call b d p) = b"
| "block_of (Destructor_call b a) = b"
| "block_of (Deallocate b al) = b"

definition events_of :: "nat \<Rightarrow> event list \<Rightarrow> event list" where
  "events_of b t = filter (\<lambda>ev. block_of ev = b) t"

text \<open>
  No live object holds a weak handle on a block: the assignment to \<open>enable_wp\<close> is the
  only statement that could give it one.
\<close>

definition no_embedded :: "'v state \<Rightarrow> bool" where
  "no_embedded s \<longleftrightarrow> (\<forall>x \<in> set (objs s). obj_block x = None)"

text \<open>
  What holds of every block of every configuration that a program reaches, wrapped
  counters or not: the counters of a block are the numbers of its handles modulo
  \<open>2\<^sup>3\<^sup>2\<close>; a block lies in storage; where the block is gone its handles are none or
  at least \<open>2\<^sup>3\<^sup>2\<close>; storage has a number given out before; and a number not yet given
  out has no handle and no event.
\<close>

definition block_ok :: "'v config \<Rightarrow> nat \<Rightarrow> bool" where
  "block_ok c b \<longleftrightarrow>
     (\<forall>blk. blocks (heap c) b = Some blk \<longrightarrow>
        shared_count blk = of_nat (strong_refs c b) \<and>
        weak_count blk = of_nat (weak_refs c b) \<and> b \<in> storage (heap c)) \<and>
     (blocks (heap c) b = None \<longrightarrow>
        (0 < strong_refs c b \<longrightarrow> 2 ^ 32 \<le> strong_refs c b) \<and>
        (0 < weak_refs c b \<longrightarrow> 2 ^ 32 \<le> weak_refs c b)) \<and>
     (b \<in> storage (heap c) \<longrightarrow> b < next_block (heap c)) \<and>
     (next_block (heap c) \<le> b \<longrightarrow>
        strong_refs c b = 0 \<and> weak_refs c b = 0 \<and> events_of b (trace (heap c)) = [])"

definition config_ok :: "'v config \<Rightarrow> bool" where
  "config_ok c \<longleftrightarrow> no_embedded (heap c) \<and> (\<forall>b. block_ok c b)"

text \<open>
  What one operation does to one block \<open>b\<close>. It leaves it alone; or it adds a strong
  handle, takes one away, adds a weak handle, takes one away; or it builds the block, or
  takes the storage under its number and builds nothing.
\<close>

definition kept :: "nat \<Rightarrow> 'v config \<Rightarrow> 'v config \<Rightarrow> bool" where
  "kept b c c' \<longleftrightarrow>
     events_of b (trace (heap c')) = events_of b (trace (heap c)) \<and>
     (b \<in> storage (heap c') \<longleftrightarrow> b \<in> storage (heap c))"

definition stays :: "nat \<Rightarrow> 'v config \<Rightarrow> 'v config \<Rightarrow> bool" where
  "stays b c c' \<longleftrightarrow>
     blocks (heap c') b = blocks (heap c) b \<and>
     strong_refs c' b = strong_refs c b \<and> weak_refs c' b = weak_refs c b \<and> kept b c c'"

definition strong_inc :: "nat \<Rightarrow> 'v config \<Rightarrow> 'v config \<Rightarrow> bool" where
  "strong_inc b c c' \<longleftrightarrow>
     strong_refs c' b = strong_refs c b + 1 \<and> weak_refs c' b = weak_refs c b \<and> kept b c c' \<and>
     (\<exists>blk. blocks (heap c) b = Some blk \<and>
        (0 < strong_refs c b \<or> shared_count blk \<noteq> 0) \<and>
        blocks (heap c') b = Some (blk\<lparr>shared_count := shared_count blk + 1\<rparr>))"

definition strong_dec :: "nat \<Rightarrow> 'v config \<Rightarrow> 'v config \<Rightarrow> bool" where
  "strong_dec b c c' \<longleftrightarrow>
     0 < strong_refs c b \<and> strong_refs c' b + 1 = strong_refs c b \<and>
     weak_refs c' b = weak_refs c b \<and>
     (\<exists>blk. blocks (heap c) b = Some blk \<and>
        (if shared_count blk = 1
         then \<exists>ev. destroys b (payload_ptr (kind blk)) ev \<and>
                (if weak_count blk = 0
                 then blocks (heap c') b = None \<and> b \<notin> storage (heap c') \<and>
                      events_of b (trace (heap c')) =
                        events_of b (trace (heap c)) @ [ev, Deallocate b (alloc_of (kind blk))]
                 else (\<exists>k. blocks (heap c') b = Some (blk\<lparr>shared_count := 0, kind := k\<rparr>)) \<and>
                      (b \<in> storage (heap c') \<longleftrightarrow> b \<in> storage (heap c)) \<and>
                      events_of b (trace (heap c')) = events_of b (trace (heap c)) @ [ev])
         else blocks (heap c') b = Some (blk\<lparr>shared_count := shared_count blk - 1\<rparr>) \<and>
              kept b c c'))"

definition weak_inc :: "nat \<Rightarrow> 'v config \<Rightarrow> 'v config \<Rightarrow> bool" where
  "weak_inc b c c' \<longleftrightarrow>
     strong_refs c' b = strong_refs c b \<and> weak_refs c' b = weak_refs c b + 1 \<and> kept b c c' \<and>
     (\<exists>blk. blocks (heap c) b = Some blk \<and>
        blocks (heap c') b = Some (blk\<lparr>weak_count := weak_count blk + 1\<rparr>))"

text \<open>
  \<open>WeakPtr(SharedPtr<U> shp)\<close> takes its argument by value: the copy adds one to the
  strong counter and its destructor takes it off again. With the counter at 0 and
  strong handles alive (\<open>2\<^sup>3\<^sup>2\<close> of them, or a multiple), that destructor brings the
  counter from 1 to 0 and destroys the payload.
\<close>

definition weak_inc_wrapped :: "nat \<Rightarrow> 'v config \<Rightarrow> 'v config \<Rightarrow> bool" where
  "weak_inc_wrapped b c c' \<longleftrightarrow>
     0 < strong_refs c b \<and>
     strong_refs c' b = strong_refs c b \<and> weak_refs c' b = weak_refs c b + 1 \<and>
     (\<exists>blk. blocks (heap c) b = Some blk \<and> shared_count blk = 0 \<and>
        (case blocks (heap c') b of
           None \<Rightarrow> weak_count blk + 1 = 0 \<and> b \<notin> storage (heap c')
         | Some blk' \<Rightarrow>
             shared_count blk' = 0 \<and> weak_count blk' = weak_count blk + 1 \<and>
             (b \<in> storage (heap c') \<longleftrightarrow> b \<in> storage (heap c))))"

definition weak_dec :: "nat \<Rightarrow> 'v config \<Rightarrow> 'v config \<Rightarrow> bool" where
  "weak_dec b c c' \<longleftrightarrow>
     0 < weak_refs c b \<and> weak_refs c' b + 1 = weak_refs c b \<and>
     strong_refs c' b = strong_refs c b \<and>
     (\<exists>blk. blocks (heap c) b = Some blk \<and>
        (if weak_count blk = 1 \<and> shared_count blk = 0
         then blocks (heap c') b = None \<and> b \<notin> storage (heap c') \<and>
              events_of b (trace (heap c')) =
                events_of b (trace (heap c)) @ [Deallocate b (alloc_of (kind blk))]
         else blocks (heap c') b = Some (blk\<lparr>weak_count := weak_count blk - 1\<rparr>) \<and>
              kept b c c'))"

definition built :: "nat \<Rightarrow> 'v config \<Rightarrow> 'v config \<Rightarrow> bool" where
  "built b c c' \<longleftrightarrow>
     b = next_block (heap c) \<and> b < next_block (heap c') \<and>
     strong_refs c' b = strong_refs c b + 1 \<and> weak_refs c' b = weak_refs c b \<and>
     (\<exists>k. blocks (heap c') b = Some \<lparr>shared_count = 1, weak_count = 0, kind = k\<rparr>) \<and>
     b \<in> storage (heap c') \<and>
     events_of b (trace (heap c')) = events_of b (trace (heap c)) @ [Allocate b]"

definition raw_storage :: "nat \<Rightarrow> 'v config \<Rightarrow> 'v config \<Rightarrow> bool" where
  "raw_storage b c c' \<longleftrightarrow>
     b = next_block (heap c) \<and> b < next_block (heap c') \<and>
     strong_refs c' b = strong_refs c b \<and> weak_refs c' b = weak_refs c b \<and>
     blocks (heap c') b = blocks (heap c) b \<and> b \<in> storage (heap c') \<and>
     events_of b (trace (heap c')) = events_of b (trace (heap c)) @ [Allocate b]"

definition acts :: "nat \<Rightarrow> 'v config \<Rightarrow> 'v config \<Rightarrow> bool" where
  "acts b c c' \<longleftrightarrow>
     next_block (heap c) \<le> next_block (heap c') \<and>
     (next_block (heap c) \<le> b \<and> b < next_block (heap c') \<longrightarrow>
        built b c c' \<or> raw_storage b c c') \<and>
     (stays b c c' \<or> strong_inc b c c' \<or> strong_dec b c c' \<or> weak_inc b c c' \<or>
      weak_inc_wrapped b c c' \<or> weak_dec b c c' \<or> built b c c' \<or> raw_storage b c c')"

text \<open>
  The life of a block that has had a strong handle, with \<open>p\<close> the pointer that its
  \<open>destroy()\<close> is for: while strong handles are alive its storage is allocated and nothing
  else has happened to it; when none is left the payload has been destroyed, once, and
  the storage is released, once, exactly when the block is gone.
\<close>

definition life :: "nat \<Rightarrow> ptr \<Rightarrow> 'v config \<Rightarrow> bool" where
  "life b p c \<longleftrightarrow>
     b < next_block (heap c) \<and>
     (if 0 < strong_refs c b
      then events_of b (trace (heap c)) = [Allocate b] \<and>
           (\<exists>blk. blocks (heap c) b = Some blk \<and> payload_ptr (kind blk) = p)
      else \<exists>ev. destroys b p ev \<and>
             (if blocks (heap c) b = None
              then \<exists>al. events_of b (trace (heap c)) = [Allocate b, ev, Deallocate b al]
              else events_of b (trace (heap c)) = [Allocate b, ev]))"


text \<open>
  The operations that hand the pointer of the new handle to the new block: the two
  adopting constructors \<open>SharedPtr(U*)\<close> and \<open>SharedPtr(U*, Delete)\<close>, and the factory.
  \<open>SharedPtr(U*, Delete, Alloc)\<close> gives its block the deleter and the allocator only.
\<close>

definition stores_pointer :: "'v op \<Rightarrow> bool" where
  "stores_pointer x =
     (case x of
        Adopt esft p \<Rightarrow> True
      | Adopt_deleter esft p d \<Rightarrow> True
      | Make r esft al \<Rightarrow> True
      | _ \<Rightarrow> False)"

text \<open>The live weak handles of the client on a block.\<close>

definition client_refs :: "weak_ptr option list \<Rightarrow> nat \<Rightarrow> nat" where
  "client_refs ws b = count_list (map wp_block ws) (Some b)"


section \<open>Basic facts\<close>

lemmas heap_defs = put_block_def emit_def allocate_def deref_def
  RegularControlBlock_ctor_def inc_shared_count_def inc_weak_count_def

lemmas op_defs = new_sp_def new_wp_def sp_at_def wp_at_def init_def empty_state_def
  SharedPtr_adopt_def SharedPtr_copy_def SharedPtr_dtor_def WeakPtr_from_shared_def
  WeakPtr_ctor_body_def WeakPtr_copy_def WeakPtr_dtor_def

lemma deref_Some_iff:
  "deref p s = Some (a, ob) \<longleftrightarrow> p = Obj a \<and> a < length (objs s) \<and> objs s ! a = Some ob"
  by (auto simp: deref_def split: ptr.splits option.splits)

lemma deref_objs: "objs s' = objs s \<Longrightarrow> deref p s' = deref p s"
  by (cases p) (simp_all add: deref_def)

lemma of_nat_wrap_copies: "(of_nat wrap_copies :: uint) = - 2"
  by (simp add: wrap_copies_def)

lemma unat_inc:
  fixes x :: uint
  assumes "unat x < 2 ^ 32 - 1"
  shows "unat (x + 1) = unat x + 1" and "x + 1 \<noteq> 0"
proof -
  from assms have "unat x + unat (1 :: uint) < 2 ^ LENGTH(32)" by simp
  then show u: "unat (x + 1) = unat x + 1"
    by (simp add: unat_add_lem[THEN iffD1])
  then have "unat (x + 1) \<noteq> 0" by simp
  then show "x + 1 \<noteq> 0" by (metis unat_0)
qed

lemma run_append:
  "run (xs @ ys) c = (case run xs c of None \<Rightarrow> None | Some c' \<Rightarrow> run ys c')"
  by (induction xs arbitrary: c) (auto split: option.splits)

text \<open>\<open>n\<close> copies of one handle add \<open>n\<close> to the strong counter, in \<open>32 word\<close>.\<close>

lemma run_copies:
  assumes "sp_at c i = Some h" "sp_cb h = Some b" "blocks (heap c) b = Some blk"
  shows "run (replicate n (Copy i)) c =
     Some (c\<lparr>heap := (heap c)\<lparr>blocks := (blocks (heap c))
                  (b \<mapsto> blk\<lparr>shared_count := shared_count blk + of_nat n\<rparr>)\<rparr>,
             sps := sps c @ replicate n (Some h)\<rparr>)"
  using assms
proof (induction n arbitrary: c blk)
  case 0
  then have "(blocks (heap c))(b \<mapsto> blk) = blocks (heap c)"
    by (simp add: map_upd_triv)
  then show ?case by simp
next
  case (Suc n)
  let ?blk1 = "blk\<lparr>shared_count := shared_count blk + 1\<rparr>"
  let ?c1 = "c\<lparr>heap := (heap c)\<lparr>blocks := (blocks (heap c))(b \<mapsto> ?blk1)\<rparr>,
               sps := sps c @ [Some h]\<rparr>"
  have e: "exec (Copy i) c = Some ?c1"
    using Suc.prems by (simp add: new_sp_def SharedPtr_copy_def heap_defs)
  have a: "sp_at ?c1 i = Some h"
    using Suc.prems(1) by (auto simp: sp_at_def nth_append split: if_splits)
  have "run (replicate (Suc n) (Copy i)) c = run (replicate n (Copy i)) ?c1"
    using e by simp
  also have "\<dots> = Some (?c1\<lparr>heap := (heap ?c1)\<lparr>blocks := (blocks (heap ?c1))
                  (b \<mapsto> ?blk1\<lparr>shared_count := shared_count ?blk1 + of_nat n\<rparr>)\<rparr>,
             sps := sps ?c1 @ replicate n (Some h)\<rparr>)"
    by (rule Suc.IH[OF a Suc.prems(2)]) simp
  also have "\<dots> = Some (c\<lparr>heap := (heap c)\<lparr>blocks := (blocks (heap c))
                  (b \<mapsto> blk\<lparr>shared_count := shared_count blk + of_nat (Suc n)\<rparr>)\<rparr>,
             sps := sps c @ replicate (Suc n) (Some h)\<rparr>)"
    by (simp add: replicate_app_Cons_same add.assoc)
  finally show ?case .
qed

text \<open>
  A null pointer is adopted, a weak handle is made from the strong one, and the strong
  handle is copied \<open>wrap_copies\<close> times: the strong counter is at its largest value.
\<close>

lemma run_to_the_brim:
  "run (Adopt False nullptr # Weak_from 0 # replicate wrap_copies (Copy 0)) (init :: unit config) =
    Some \<lparr>heap = \<lparr>blocks = [0 \<mapsto> \<lparr>shared_count = - 1, weak_count = 1,
                        kind = RegularControlBlock nullptr Default_delete Std_allocator\<rparr>],
                  storage = {0}, next_block = 1, objs = [], trace = [Allocate 0]\<rparr>,
          sps = Some \<lparr>sp_ptr = nullptr, sp_cb = Some 0\<rparr> #
                replicate wrap_copies (Some \<lparr>sp_ptr = nullptr, sp_cb = Some 0\<rparr>),
          wps = [Some \<lparr>wp_ptr = nullptr, wp_cb = Some 0\<rparr>]\<rparr>"
proof -
  let ?h = "\<lparr>sp_ptr = nullptr, sp_cb = Some 0\<rparr>"
  let ?blk = "\<lparr>shared_count = 1, weak_count = 1,
               kind = RegularControlBlock nullptr Default_delete Std_allocator\<rparr>"
  let ?c2 = "\<lparr>heap = \<lparr>blocks = [0 \<mapsto> ?blk], storage = {0}, next_block = 1, objs = [],
                      trace = [Allocate 0]\<rparr>,
             sps = [Some ?h],
             wps = [Some \<lparr>wp_ptr = nullptr, wp_cb = Some 0\<rparr>]\<rparr> :: unit config"
  have 1: "run [Adopt False nullptr, Weak_from 0] (init :: unit config) = Some ?c2"
    by (simp add: op_defs heap_defs Let_def)
  have 2: "run (replicate wrap_copies (Copy 0)) ?c2 =
      Some (?c2\<lparr>heap := (heap ?c2)\<lparr>blocks := (blocks (heap ?c2))
                (0 \<mapsto> ?blk\<lparr>shared_count := shared_count ?blk + of_nat wrap_copies\<rparr>)\<rparr>,
               sps := sps ?c2 @ replicate wrap_copies (Some ?h)\<rparr>)"
    by (rule run_copies[where h = ?h]) (simp_all add: sp_at_def)
  have "run (Adopt False nullptr # Weak_from 0 # replicate wrap_copies (Copy 0)) (init :: unit config)
      = run ([Adopt False nullptr, Weak_from 0] @ replicate wrap_copies (Copy 0)) init"
    by simp
  also have "\<dots> = run (replicate wrap_copies (Copy 0)) ?c2"
    unfolding run_append 1 by simp
  finally show ?thesis
    unfolding 2 by (simp add: of_nat_wrap_copies)
qed

text \<open>The accesses of the header to private members of another class.\<close>

lemma header_accesses:
  "accessible WeakPtr_scope SharedPtr_scope"
  "accessible SharedPtr_scope WeakPtr_scope"
  "accessible allocateShared_scope SharedPtr_scope"
  "\<not> accessible SharedPtr_scope EnableSharedFromThis_scope"
  "\<not> accessible EnableSharedFromThis_scope SharedPtr_scope"
  by (simp_all add: accessible_def friends_def)

lemma assign_enable_wp_None [simp]: "assign_enable_wp p this s = None"
  by (simp add: assign_enable_wp_def header_accesses)

lemma shared_from_this_None [simp]: "shared_from_this this s = None"
  by (simp add: shared_from_this_def header_accesses)

text \<open>The adopting constructors, for a type that is not self-observing.\<close>

lemma SharedPtr_adopt_result:
  "SharedPtr_adopt False p s =
     Some (\<lparr>sp_ptr = p, sp_cb = Some (next_block s)\<rparr>,
           s\<lparr>blocks := (blocks s)(next_block s \<mapsto>
                \<lparr>shared_count = 1, weak_count = 0,
                 kind = RegularControlBlock p Default_delete Std_allocator\<rparr>),
             storage := insert (next_block s) (storage s),
             next_block := Suc (next_block s),
             trace := trace s @ [Allocate (next_block s)]\<rparr>)"
  by (simp add: SharedPtr_adopt_def heap_defs)

lemma adopt_self_observing [simp]:
  "SharedPtr_adopt True p s = None"
  "SharedPtr_adopt_deleter True p d s = None"
  "SharedPtr_adopt_deleter_alloc True p d al s = None"
  by (simp_all add: SharedPtr_adopt_def SharedPtr_adopt_deleter_def
      SharedPtr_adopt_deleter_alloc_def split_beta)

section \<open>Facts about the store and the handles\<close>


lemma WeakPtr_dtor_eq:
  assumes "wp_cb w = Some b" "blocks s b = Some blk"
  shows "WeakPtr_dtor w s =
     Some (if weak_count blk = 1 \<and> shared_count blk = 0
           then s\<lparr>blocks := (blocks s)(b := None), storage := storage s - {b},
                  trace := trace s @ [Deallocate b (alloc_of (kind blk))]\<rparr>
           else s\<lparr>blocks := (blocks s)(b \<mapsto> blk\<lparr>weak_count := weak_count blk - 1\<rparr>)\<rparr>)"
  using assms
  by (cases "kind blk")
    (auto simp add: WeakPtr_dtor_def deallocate_def put_block_def emit_def alloc_of_def Let_def)

lemma WeakPtr_dtor_None: "wp_cb w = None \<Longrightarrow> WeakPtr_dtor w s = Some s"
  by (simp add: WeakPtr_dtor_def)

lemma WeakPtr_dtor_Some_block:
  "WeakPtr_dtor w s = Some s' \<Longrightarrow> wp_cb w = Some b \<Longrightarrow> \<exists>blk. blocks s b = Some blk"
  by (auto simp add: WeakPtr_dtor_def split: option.splits)

lemma embedded_refs_frame [simp]:
  "embedded_refs (s\<lparr>blocks := m\<rparr>) = embedded_refs s"
  "embedded_refs (s\<lparr>trace := t\<rparr>) = embedded_refs s"
  "embedded_refs (s\<lparr>storage := st\<rparr>) = embedded_refs s"
  "embedded_refs (s\<lparr>next_block := n\<rparr>) = embedded_refs s"
  by (simp_all add: embedded_refs_def fun_eq_iff)

lemma unat_eq_1: fixes x :: uint shows "unat x = 1 \<longleftrightarrow> x = 1"
  by (simp add: word_unat_eq_iff)

lemma count_list_update:
  "a < length xs \<Longrightarrow>
     count_list (xs[a := y]) k + (if xs ! a = k then 1 else 0) =
     count_list xs k + (if y = k then 1 else 0)"
proof (induction xs arbitrary: a)
  case Nil
  then show ?case by simp
next
  case (Cons x xs)
  show ?case
  proof (cases a)
    case 0
    then show ?thesis by simp
  next
    case (Suc n)
    with Cons.prems have "n < length xs" by simp
    from Cons.IH[OF this] Suc show ?thesis by (auto split: if_splits)
  qed
qed

lemma destroys_is_destroy: "destroys b p ev \<Longrightarrow> is_destroy b ev"
  by (cases ev) auto

lemma emit_simps [simp]:
  "blocks (emit ev s) = blocks s" "objs (emit ev s) = objs s" "storage (emit ev s) = storage s"
  "next_block (emit ev s) = next_block s" "trace (emit ev s) = trace s @ [ev]"
  "embedded_refs (emit ev s) = embedded_refs s"
  by (simp_all add: emit_def)

lemma put_block_simps [simp]:
  "blocks (put_block b blk s) = (blocks s)(b \<mapsto> blk)" "objs (put_block b blk s) = objs s"
  "storage (put_block b blk s) = storage s" "next_block (put_block b blk s) = next_block s"
  "trace (put_block b blk s) = trace s" "embedded_refs (put_block b blk s) = embedded_refs s"
  by (simp_all add: put_block_def)

lemma deallocate_eq:
  assumes "deallocate b s = Some s'"
  obtains blk where "blocks s b = Some blk"
    "s' = s\<lparr>blocks := (blocks s)(b := None), storage := storage s - {b},
       trace := trace s @ [Deallocate b (alloc_of (kind blk))]\<rparr>"
proof -
  from assms obtain blk where blk: "blocks s b = Some blk"
    by (auto simp: deallocate_def split: option.splits)
  with assms have "s' = s\<lparr>blocks := (blocks s)(b := None), storage := storage s - {b},
       trace := trace s @ [Deallocate b (alloc_of (kind blk))]\<rparr>"
    by (cases "kind blk") (auto simp: deallocate_def emit_def alloc_of_def)
  with blk that show thesis by blast
qed

lemma SharedPtr_dtor_cases:
  assumes "SharedPtr_dtor h s = Some s'" "sp_cb h = Some b"
  obtains blk where "blocks s b = Some blk" "shared_count blk \<noteq> 1"
      "s' = put_block b (blk\<lparr>shared_count := shared_count blk - 1\<rparr>) s"
  | blk s3 where "blocks s b = Some blk" "shared_count blk = 1" "weak_count blk \<noteq> 0"
      "destroy b (put_block b (blk\<lparr>shared_count := 0\<rparr>) s) = Some s3" "s' = s3"
  | blk s3 where "blocks s b = Some blk" "shared_count blk = 1" "weak_count blk = 0"
      "destroy b (put_block b (blk\<lparr>shared_count := 0\<rparr>) s) = Some s3" "deallocate b s3 = Some s'"
proof -
  from assms obtain blk where blk: "blocks s b = Some blk"
    by (auto simp: SharedPtr_dtor_def split: option.splits)
  have z: "shared_count blk - 1 = 0 \<longleftrightarrow> shared_count blk = 1"
    by auto
  show thesis
  proof (cases "shared_count blk = 1")
    case False
    with assms blk z have "s' = put_block b (blk\<lparr>shared_count := shared_count blk - 1\<rparr>) s"
      by (simp add: SharedPtr_dtor_def Let_def)
    with blk False that(1) show thesis by blast
  next
    case True
    show thesis
    proof (cases "weak_count blk = 0")
      case False
      with assms blk True have "destroy b (put_block b (blk\<lparr>shared_count := 0\<rparr>) s) = Some s'"
        by (simp add: SharedPtr_dtor_def Let_def)
      with blk True False that(2) show thesis by blast
    next
      case w: True
      with assms blk True obtain s3 where
        "destroy b (put_block b (blk\<lparr>shared_count := 0\<rparr>) s) = Some s3" "deallocate b s3 = Some s'"
        by (auto simp add: SharedPtr_dtor_def Let_def split: bind_splits)
      with blk True w that(3) show thesis by blast
    qed
  qed
qed

lemma allocate_simps [simp]:
  "fst (allocate s) = next_block s"
  "blocks (snd (allocate s)) = blocks s" "objs (snd (allocate s)) = objs s"
  "storage (snd (allocate s)) = insert (next_block s) (storage s)"
  "next_block (snd (allocate s)) = Suc (next_block s)"
  "trace (snd (allocate s)) = trace s @ [Allocate (next_block s)]"
  "embedded_refs (snd (allocate s)) = embedded_refs s"
  by (simp_all add: allocate_def emit_def embedded_refs_def)

lemma count_list_pos: "i < length xs \<Longrightarrow> xs ! i = k \<Longrightarrow> 0 < count_list xs k"
  by (metis count_list_0_iff gr0I nth_mem)

lemma strong_refs_pos:
  assumes "sp_at c i = Some h" "sp_cb h = Some b"
  shows "0 < strong_refs c b"
proof -
  from assms have "i < length (map sp_block (sps c))" "map sp_block (sps c) ! i = Some b"
    by (auto simp: sp_at_def sp_block_def split: if_splits)
  then show ?thesis
    unfolding strong_refs_def by (rule count_list_pos)
qed

lemma strong_refs_update:
  assumes "sp_at c i = Some h" "sps c' = (sps c)[i := x]"
  shows "strong_refs c' b + (if sp_cb h = Some b then 1 else 0) =
         strong_refs c b + (if sp_block x = Some b then 1 else 0)"
proof -
  from assms(1) have i: "i < length (map sp_block (sps c))" "map sp_block (sps c) ! i = sp_cb h"
    by (auto simp: sp_at_def sp_block_def split: if_splits)
  from count_list_update[OF i(1), of "sp_block x" "Some b"] i(2) assms(2) show ?thesis
    by (simp add: strong_refs_def map_update)
qed

lemma allocateShared_Inr:
  "allocateShared (\<lambda>_. Inr v) esft al () s =
     (Inr \<lparr>sp_ptr = Obj (length (objs s)), sp_cb = Some (next_block s)\<rparr>,
      put_block (next_block s)
        \<lparr>shared_count = 1, weak_count = 0, kind = MakeSharedControlBlock (length (objs s)) al\<rparr>
        (snd (allocate (s\<lparr>objs := objs s @
           [Some \<lparr>val = v, enable_wp = (if esft then Some WeakPtr else None), in_block = True\<rparr>]\<rparr>))))"
  by (cases s)
    (simp add: allocateShared_def split_beta Let_def SharedPtr_def put_block_def allocate_def
      emit_def)

lemma mem_update: "y \<in> set (xs[i := x]) \<Longrightarrow> y = x \<or> y \<in> set xs"
  using set_update_subset_insert[of xs i x] by auto

lemma phase_step_Bad [simp]: "phase_step b Bad ev = Bad"
  by (cases ev) simp_all

lemma release_refs:
  assumes "sp_at c i = Some h" "sp_cb h = Some b"
    "exec (Release i) c = Some c' \<or> exec (Reset i) c = Some c'"
  shows "strong_refs c' b + 1 = strong_refs c b"
proof -
  from assms(3,1) obtain x where x: "sps c' = (sps c)[i := x]" "sp_block x = None"
    by (auto simp: sp_block_def reset_def SharedPtr_swap_def SharedPtr_def
        split: option.splits bind_splits)
  from strong_refs_update[OF assms(1) x(1), of b] assms(2) x(2) show ?thesis by simp
qed

lemmas dtor_defs = destroy_def call_deleter_def delete_expr_def destroy_at_def deallocate_def





lemma run_new_adopt_copies:
  "run (New () False # Adopt False (Obj 0) # replicate n (Copy 0)) (init :: unit config) =
    Some \<lparr>heap = \<lparr>blocks = [0 \<mapsto> \<lparr>shared_count = 1 + of_nat n, weak_count = 0,
                        kind = RegularControlBlock (Obj 0) Default_delete Std_allocator\<rparr>],
                  storage = {0}, next_block = 1,
                  objs = [Some \<lparr>val = (), enable_wp = None, in_block = False\<rparr>],
                  trace = [Allocate 0]\<rparr>,
          sps = Some \<lparr>sp_ptr = Obj 0, sp_cb = Some 0\<rparr> #
                replicate n (Some \<lparr>sp_ptr = Obj 0, sp_cb = Some 0\<rparr>),
          wps = []\<rparr>"
proof -
  let ?h = "\<lparr>sp_ptr = Obj 0, sp_cb = Some 0\<rparr>"
  let ?blk = "\<lparr>shared_count = 1, weak_count = 0,
               kind = RegularControlBlock (Obj 0) Default_delete Std_allocator\<rparr>"
  let ?c1 = "\<lparr>heap = \<lparr>blocks = [0 \<mapsto> ?blk], storage = {0}, next_block = 1,
                      objs = [Some \<lparr>val = (), enable_wp = None, in_block = False\<rparr>],
                      trace = [Allocate 0]\<rparr>,
             sps = [Some ?h], wps = []\<rparr> :: unit config"
  have 1: "run [New () False, Adopt False (Obj 0)] (init :: unit config) = Some ?c1"
    by (simp add: op_defs heap_defs new_obj_def Let_def)
  have 2: "run (replicate n (Copy 0)) ?c1 =
      Some (?c1\<lparr>heap := (heap ?c1)\<lparr>blocks := (blocks (heap ?c1))
                (0 \<mapsto> ?blk\<lparr>shared_count := shared_count ?blk + of_nat n\<rparr>)\<rparr>,
               sps := sps ?c1 @ replicate n (Some ?h)\<rparr>)"
    by (rule run_copies[where h = ?h]) (simp_all add: sp_at_def)
  have "run (New () False # Adopt False (Obj 0) # replicate n (Copy 0)) (init :: unit config)
      = run ([New () False, Adopt False (Obj 0)] @ replicate n (Copy 0)) init"
    by simp
  also have "\<dots> = run (replicate n (Copy 0)) ?c1"
    unfolding run_append 1 by simp
  finally show ?thesis
    unfolding 2 by simp
qed

lemma events_of_simps [simp]:
  "events_of b [] = []"
  "events_of b (ev # t) = (if block_of ev = b then ev # events_of b t else events_of b t)"
  "events_of b (t @ u) = events_of b t @ events_of b u"
  by (simp_all add: events_of_def)



lemma is_destroy_block_of: "is_destroy b ev \<Longrightarrow> block_of ev = b"
  by (cases ev) auto

lemma filter_events_of:
  assumes "\<And>ev. P ev \<Longrightarrow> block_of ev = b"
  shows "filter P (events_of b t) = filter P t"
  unfolding events_of_def filter_filter
  by (rule filter_cong) (auto dest: assms)

lemma destroys_block_of: "destroys b p ev \<Longrightarrow> block_of ev = b"
  by (cases ev) auto

lemma embedded_refs_zero: "no_embedded s \<Longrightarrow> embedded_refs s b = 0"
  by (auto simp: no_embedded_def embedded_refs_def count_list_0_iff)

lemma weak_refs_client:
  "no_embedded (heap c) \<Longrightarrow> weak_refs c b = count_list (map wp_block (wps c)) (Some b)"
  by (simp add: weak_refs_def embedded_refs_zero)

lemma no_embedded_frame [simp]:
  "no_embedded (s\<lparr>blocks := m\<rparr>) = no_embedded s"
  "no_embedded (s\<lparr>trace := t\<rparr>) = no_embedded s"
  "no_embedded (s\<lparr>storage := st\<rparr>) = no_embedded s"
  "no_embedded (s\<lparr>next_block := n\<rparr>) = no_embedded s"
  "no_embedded (emit ev s) = no_embedded s"
  "no_embedded (put_block b blk s) = no_embedded s"
  "no_embedded (snd (allocate s)) = no_embedded s"
  by (simp_all add: no_embedded_def)

lemma no_embedded_snoc:
  "no_embedded s \<Longrightarrow> obj_block x = None \<Longrightarrow> no_embedded (s\<lparr>objs := objs s @ [x]\<rparr>)"
  by (auto simp: no_embedded_def)

text \<open>The destructor of an object that holds no weak handle changes its cell only.\<close>

lemma destroy_at_effect:
  assumes "no_embedded s" "destroy_at p s = Some s'"
  shows "\<exists>a. p = Obj a \<and> s' = s\<lparr>objs := (objs s)[a := None]\<rparr>"
proof -
  from assms(2) obtain a ob where d: "deref p s = Some (a, ob)"
    by (auto simp: destroy_at_def split: option.splits)
  then have p: "p = Obj a" "a < length (objs s)" "objs s ! a = Some ob"
    by (simp_all add: deref_Some_iff)
  then have "Some ob \<in> set (objs s)" by (metis nth_mem)
  with assms(1) have "obj_block (Some ob) = None" by (simp add: no_embedded_def)
  then have "enable_wp ob = None \<or> (\<exists>w. enable_wp ob = Some w \<and> wp_cb w = None)"
    by (cases "enable_wp ob") (auto simp: obj_block_def wp_block_def)
  with assms(2) d p(1) show ?thesis
    by (auto simp: destroy_at_def WeakPtr_dtor_None)
qed

lemma destroy_effect:
  assumes "no_embedded s" "blocks s b = Some blk" "destroy b s = Some s'"
  shows "\<exists>ev k os. destroys b (payload_ptr (kind blk)) ev \<and> alloc_of k = alloc_of (kind blk) \<and>
           (\<forall>x \<in> set os. obj_block x = None) \<and>
           s' = s\<lparr>blocks := (blocks s)(b \<mapsto> blk\<lparr>kind := k\<rparr>), objs := os,
                   trace := trace s @ [ev]\<rparr>"
proof (cases "kind blk")
  case (RegularControlBlock p d al)
  let ?ev = "Deleter_call b d p"
  let ?k = "RegularControlBlock nullptr d al"
  from assms(2,3) RegularControlBlock obtain s1 where
    s1: "call_deleter b d p s = Some s1" "blocks s1 b \<noteq> None"
    by (auto simp: destroy_def split: bind_splits option.splits)
  have "\<exists>os. (\<forall>x \<in> set os. obj_block x = None) \<and> s1 = s\<lparr>objs := os, trace := trace s @ [?ev]\<rparr>"
  proof (cases "d = Default_delete \<and> p \<noteq> nullptr")
    case False
    with s1(1) have "s1 = emit ?ev s"
      by (cases d; cases p) (auto simp: call_deleter_def delete_expr_def)
    then have "s1 = s\<lparr>objs := objs s, trace := trace s @ [?ev]\<rparr>"
      by (simp add: emit_def)
    with assms(1) show ?thesis unfolding no_embedded_def by blast
  next
    case True
    with s1(1) have "destroy_at p (emit ?ev s) = Some s1"
      by (cases p) (auto simp: call_deleter_def delete_expr_def split: option.splits if_splits)
    from destroy_at_effect[OF _ this] assms(1) obtain a where
      a: "s1 = (emit ?ev s)\<lparr>objs := (objs (emit ?ev s))[a := None]\<rparr>"
      by auto
    have "\<forall>x \<in> set ((objs s)[a := None]). obj_block x = None"
      using assms(1) by (auto simp: no_embedded_def obj_block_def dest!: mem_update)
    moreover have "s1 = s\<lparr>objs := (objs s)[a := None], trace := trace s @ [?ev]\<rparr>"
      using a by (simp add: emit_def)
    ultimately show ?thesis by blast
  qed
  then obtain os where os: "\<forall>x \<in> set os. obj_block x = None"
    "s1 = s\<lparr>objs := os, trace := trace s @ [?ev]\<rparr>"
    by blast
  from os(2) assms(2) have b1: "blocks s1 b = Some blk" by simp
  from assms(2,3) RegularControlBlock s1(1) b1 have
    "s' = put_block b (blk\<lparr>kind := ?k\<rparr>) s1"
    by (simp add: destroy_def)
  with os(2) have "s' = s\<lparr>blocks := (blocks s)(b \<mapsto> blk\<lparr>kind := ?k\<rparr>), objs := os,
                   trace := trace s @ [?ev]\<rparr>"
    by (simp add: put_block_def)
  moreover have "destroys b (payload_ptr (kind blk)) ?ev" "alloc_of ?k = alloc_of (kind blk)"
    using RegularControlBlock by (simp_all add: payload_ptr_def alloc_of_def)
  ultimately show ?thesis using os(1) by blast
next
  case (MakeSharedControlBlock a al)
  let ?ev = "Destructor_call b a"
  from assms(2,3) MakeSharedControlBlock have "destroy_at (Obj a) (emit ?ev s) = Some s'"
    by (simp add: destroy_def)
  from destroy_at_effect[OF _ this] assms(1) have
    "s' = (emit ?ev s)\<lparr>objs := (objs (emit ?ev s))[a := None]\<rparr>"
    by auto
  then have "s' = s\<lparr>objs := (objs s)[a := None], trace := trace s @ [?ev]\<rparr>"
    by (simp add: emit_def)
  moreover have "(blocks s)(b \<mapsto> blk\<lparr>kind := kind blk\<rparr>) = blocks s"
    using assms(2) by (simp add: map_upd_triv)
  ultimately have "s' = s\<lparr>blocks := (blocks s)(b \<mapsto> blk\<lparr>kind := kind blk\<rparr>),
      objs := (objs s)[a := None], trace := trace s @ [?ev]\<rparr>"
    by simp
  moreover have "\<forall>x \<in> set ((objs s)[a := None]). obj_block x = None"
    using assms(1) by (auto simp: no_embedded_def obj_block_def dest!: mem_update)
  moreover have "destroys b (payload_ptr (kind blk)) ?ev"
    using MakeSharedControlBlock by (simp add: payload_ptr_def)
  ultimately show ?thesis by blast
qed

text \<open>What the destructor of a strong handle on block \<open>b\<close> does to the store.\<close>

lemma SharedPtr_dtor_effect:
  assumes "no_embedded s" "sp_cb h = Some b" "SharedPtr_dtor h s = Some s'"
  shows "\<exists>blk. blocks s b = Some blk \<and>
     (if shared_count blk = 1
      then \<exists>ev k os. destroys b (payload_ptr (kind blk)) ev \<and> (\<forall>x \<in> set os. obj_block x = None) \<and>
             (if weak_count blk = 0
              then s' = s\<lparr>blocks := (blocks s)(b := None), storage := storage s - {b}, objs := os,
                          trace := trace s @ [ev, Deallocate b (alloc_of (kind blk))]\<rparr>
              else s' = s\<lparr>blocks := (blocks s)(b \<mapsto> blk\<lparr>shared_count := 0, kind := k\<rparr>),
                          objs := os, trace := trace s @ [ev]\<rparr>)
      else s' = put_block b (blk\<lparr>shared_count := shared_count blk - 1\<rparr>) s)"
  using assms(3,2)
proof (cases rule: SharedPtr_dtor_cases)
  case (1 blk)
  then show ?thesis by simp
next
  case (2 blk s3)
  let ?s1 = "put_block b (blk\<lparr>shared_count := 0\<rparr>) s"
  have "no_embedded ?s1" "blocks ?s1 b = Some (blk\<lparr>shared_count := 0\<rparr>)"
    using assms(1) by simp_all
  from destroy_effect[OF this 2(4)] obtain ev k os where
    e: "destroys b (payload_ptr (kind blk)) ev" "\<forall>x \<in> set os. obj_block x = None"
    "s3 = ?s1\<lparr>blocks := (blocks ?s1)(b \<mapsto> blk\<lparr>shared_count := 0, kind := k\<rparr>), objs := os,
                   trace := trace ?s1 @ [ev]\<rparr>"
    by auto
  from e(3) have "s3 = s\<lparr>blocks := (blocks s)(b \<mapsto> blk\<lparr>shared_count := 0, kind := k\<rparr>),
                          objs := os, trace := trace s @ [ev]\<rparr>"
    by (simp add: put_block_def)
  with 2 e(1,2) show ?thesis by auto
next
  case (3 blk s3)
  let ?s1 = "put_block b (blk\<lparr>shared_count := 0\<rparr>) s"
  have "no_embedded ?s1" "blocks ?s1 b = Some (blk\<lparr>shared_count := 0\<rparr>)"
    using assms(1) by simp_all
  from destroy_effect[OF this 3(4)] obtain ev k os where
    e: "destroys b (payload_ptr (kind blk)) ev" "\<forall>x \<in> set os. obj_block x = None"
    "alloc_of k = alloc_of (kind blk)"
    "s3 = ?s1\<lparr>blocks := (blocks ?s1)(b \<mapsto> blk\<lparr>shared_count := 0, kind := k\<rparr>), objs := os,
                   trace := trace ?s1 @ [ev]\<rparr>"
    by auto
  from e(4) have s3: "s3 = s\<lparr>blocks := (blocks s)(b \<mapsto> blk\<lparr>shared_count := 0, kind := k\<rparr>),
                          objs := os, trace := trace s @ [ev]\<rparr>"
    by (simp add: put_block_def)
  from 3(5) obtain blk3 where d: "blocks s3 b = Some blk3"
    "s' = s3\<lparr>blocks := (blocks s3)(b := None), storage := storage s3 - {b},
       trace := trace s3 @ [Deallocate b (alloc_of (kind blk3))]\<rparr>"
    by (rule deallocate_eq)
  from d(1) s3 have "blk3 = blk\<lparr>shared_count := 0, kind := k\<rparr>" by simp
  then have "kind blk3 = k" by simp
  with d(2) s3 e(3) have "s' = s\<lparr>blocks := (blocks s)(b := None), storage := storage s - {b},
      objs := os, trace := trace s @ [ev, Deallocate b (alloc_of (kind blk))]\<rparr>"
    by simp
  with 3 e(1,2) show ?thesis by auto
qed

section \<open>What every operation does to a block\<close>

lemma strong_refs_frame [simp]:
  "strong_refs (c\<lparr>heap := s\<rparr>) b = strong_refs c b"
  "strong_refs (c\<lparr>wps := ws\<rparr>) b = strong_refs c b"
  by (simp_all add: strong_refs_def)

lemma strong_refs_set:
  assumes "sp_at c i = Some h"
  shows "strong_refs (c\<lparr>sps := (sps c)[i := x]\<rparr>) b + (if sp_cb h = Some b then 1 else 0) =
         strong_refs c b + (if sp_block x = Some b then 1 else 0)"
  by (rule strong_refs_update[OF assms]) simp

lemma weak_refs_client_refs:
  "no_embedded (heap c) \<Longrightarrow> weak_refs c b = client_refs (wps c) b"
  by (simp add: weak_refs_client client_refs_def)

lemma client_refs_snoc:
  "client_refs (ws @ [x]) b = client_refs ws b + (if wp_block x = Some b then 1 else 0)"
  by (simp add: client_refs_def)

lemma client_refs_set:
  assumes "j < length ws" "ws ! j = Some w"
  shows "client_refs (ws[j := x]) b + (if wp_cb w = Some b then 1 else 0) =
         client_refs ws b + (if wp_block x = Some b then 1 else 0)"
proof -
  have "count_list ((map wp_block ws)[j := wp_block x]) (Some b) +
          (if (map wp_block ws) ! j = Some b then 1 else 0) =
        count_list (map wp_block ws) (Some b) + (if wp_block x = Some b then 1 else 0)"
    by (rule count_list_update) (simp add: assms(1))
  then show ?thesis
    using assms by (simp add: client_refs_def map_update wp_block_def)
qed

lemma client_refs_pos:
  assumes "wp_at c j = Some w" "wp_cb w = Some b"
  shows "0 < client_refs (wps c) b"
proof -
  from assms have "j < length (map wp_block (wps c))" "map wp_block (wps c) ! j = Some b"
    by (auto simp: wp_at_def wp_block_def split: if_splits)
  then show ?thesis
    unfolding client_refs_def by (rule count_list_pos)
qed

lemma actsI:
  assumes "next_block (heap c') = next_block (heap c)"
    "stays b c c' \<or> strong_inc b c c' \<or> strong_dec b c c' \<or> weak_inc b c c' \<or>
      weak_inc_wrapped b c c' \<or> weak_dec b c c' \<or> built b c c' \<or> raw_storage b c c'"
  shows "acts b c c'"
  using assms by (auto simp add: acts_def)

lemma acts_newI:
  assumes "next_block (heap c') = Suc (next_block (heap c))"
    "if b = next_block (heap c) then built b c c' \<or> raw_storage b c c' else stays b c c'"
  shows "acts b c c'"
proof (cases "b = next_block (heap c)")
  case True
  with assms show ?thesis by (auto simp add: acts_def)
next
  case False
  then have "\<not> (next_block (heap c) \<le> b \<and> b < next_block (heap c'))"
    using assms(1) by auto
  with False assms show ?thesis by (auto simp add: acts_def)
qed

text \<open>An operation that changes neither the store nor the handles on any block.\<close>

lemma stays_handles:
  assumes "heap c' = heap c" "\<And>b. strong_refs c' b = strong_refs c b"
    "\<And>b. client_refs (wps c') b = client_refs (wps c) b" "no_embedded (heap c)"
  shows "no_embedded (heap c') \<and> acts b c c'"
proof -
  have "weak_refs c' b = weak_refs c b"
    using assms by (simp add: weak_refs_client_refs)
  with assms show ?thesis
    by (auto intro!: actsI simp: stays_def kept_def)
qed

lemma exec_New:
  assumes "no_embedded (heap c)" "exec (New v esft) c = Some c'"
  shows "no_embedded (heap c') \<and> acts b c c'"
proof -
  let ?x = "Some \<lparr>val = v, enable_wp = (if esft then Some \<lparr>wp_ptr = nullptr, wp_cb = None\<rparr> else None),
                in_block = False\<rparr>"
  from assms(2) have c': "c' = c\<lparr>heap := (heap c)\<lparr>objs := objs (heap c) @ [?x]\<rparr>\<rparr>"
    by (auto simp: new_obj_def)
  have "obj_block ?x = None" by (simp add: obj_block_def wp_block_def)
  with assms(1) have n: "no_embedded (heap c')"
    unfolding c' by (simp add: no_embedded_snoc)
  have "weak_refs c' b = weak_refs c b"
    using n assms(1) by (simp add: weak_refs_client_refs) (simp add: c')
  with n show ?thesis
    by (auto intro!: actsI simp: stays_def kept_def c')
qed

text \<open>A block of kind \<open>k\<close> is built for a new handle.\<close>

lemma built_effect:
  assumes "no_embedded (heap c)" "no_embedded s'"
    "blocks s' = (blocks (heap c))(next_block (heap c) \<mapsto> \<lparr>shared_count = 1, weak_count = 0, kind = k\<rparr>)"
    "storage s' = insert (next_block (heap c)) (storage (heap c))"
    "next_block s' = Suc (next_block (heap c))"
    "trace s' = trace (heap c) @ [Allocate (next_block (heap c))]"
    "sp_cb h = Some (next_block (heap c))"
    "c' = c\<lparr>heap := s', sps := sps c @ [Some h]\<rparr>"
  shows "no_embedded (heap c') \<and> acts b c c'"
proof -
  have n: "no_embedded (heap c')" using assms(2,8) by simp
  have w: "weak_refs c' b = weak_refs c b"
    using n assms(1) by (simp add: weak_refs_client_refs) (simp add: assms(8))
  have s: "strong_refs c' b = strong_refs c b + (if next_block (heap c) = b then 1 else 0)"
    unfolding assms(8) using assms(7) by (simp add: strong_refs_def sp_block_def)
  show ?thesis
  proof (cases "b = next_block (heap c)")
    case True
    with w s assms(3-6) have "built b c c'"
      by (auto simp: built_def assms(8))
    with n assms(5) True show ?thesis
      by (auto intro!: acts_newI simp: assms(8))
  next
    case False
    with w s assms(3-6) have "stays b c c'"
      by (auto simp: stays_def kept_def assms(8))
    with n assms(5) False show ?thesis
      by (auto intro!: acts_newI simp: assms(8))
  qed
qed

lemma adopt_results:
  "SharedPtr_adopt False p s =
     Some (\<lparr>sp_ptr = p, sp_cb = Some (next_block s)\<rparr>,
       put_block (next_block s)
         \<lparr>shared_count = 1, weak_count = 0, kind = RegularControlBlock p Default_delete Std_allocator\<rparr>
         (snd (allocate s)))"
  "SharedPtr_adopt_deleter False p d s =
     Some (\<lparr>sp_ptr = p, sp_cb = Some (next_block s)\<rparr>,
       put_block (next_block s)
         \<lparr>shared_count = 1, weak_count = 0, kind = RegularControlBlock p d Std_allocator\<rparr>
         (snd (allocate s)))"
  "SharedPtr_adopt_deleter_alloc False p d al s =
     Some (\<lparr>sp_ptr = p, sp_cb = Some (next_block s)\<rparr>,
       put_block (next_block s)
         \<lparr>shared_count = 1, weak_count = 0, kind = RegularControlBlock nullptr d al\<rparr>
         (snd (allocate s)))"
  by (simp_all add: SharedPtr_adopt_def SharedPtr_adopt_deleter_def
      SharedPtr_adopt_deleter_alloc_def RegularControlBlock_ctor_def split_beta)

lemma exec_adopting:
  assumes "no_embedded (heap c)"
    "exec (Adopt esft p) c = Some c' \<or> exec (Adopt_deleter esft p d) c = Some c' \<or>
     exec (Adopt_deleter_alloc esft p d al) c = Some c'"
  shows "\<exists>k. c' = c\<lparr>heap := put_block (next_block (heap c))
                   \<lparr>shared_count = 1, weak_count = 0, kind = k\<rparr> (snd (allocate (heap c))),
                 sps := sps c @ [Some \<lparr>sp_ptr = p, sp_cb = Some (next_block (heap c))\<rparr>]\<rparr> \<and>
             \<not> esft"
  using assms(2)
  by (cases esft) (auto simp: new_sp_def adopt_results)

lemma exec_Adopt:
  assumes "no_embedded (heap c)"
    "exec (Adopt esft p) c = Some c' \<or> exec (Adopt_deleter esft p d) c = Some c' \<or>
     exec (Adopt_deleter_alloc esft p d al) c = Some c'"
  shows "no_embedded (heap c') \<and> acts b c c'"
proof -
  from exec_adopting[OF assms] obtain k where
    c': "c' = c\<lparr>heap := put_block (next_block (heap c))
                   \<lparr>shared_count = 1, weak_count = 0, kind = k\<rparr> (snd (allocate (heap c))),
                 sps := sps c @ [Some \<lparr>sp_ptr = p, sp_cb = Some (next_block (heap c))\<rparr>]\<rparr>"
    by blast
  show ?thesis
    by (rule built_effect[OF assms(1) _ _ _ _ _ _ c']) (simp_all add: assms(1))
qed

lemma exec_Make:
  assumes "no_embedded (heap c)" "exec (Make r esft al) c = Some c'"
  shows "no_embedded (heap c') \<and> acts b c c'"
proof (cases r)
  case (Inl e)
  with assms(2) have c': "c' = c\<lparr>heap := snd (allocate (heap c))\<rparr>"
    by (simp add: allocateShared_def split_beta)
  have n: "no_embedded (heap c')" using assms(1) by (simp add: c')
  have w: "weak_refs c' b = weak_refs c b"
    using n assms(1) by (simp add: weak_refs_client_refs) (simp add: c')
  show ?thesis
  proof (cases "b = next_block (heap c)")
    case True
    with w have "raw_storage b c c'"
      by (auto simp: raw_storage_def c')
    with n True show ?thesis
      by (auto intro!: acts_newI simp: c')
  next
    case False
    with w have "stays b c c'"
      by (auto simp: stays_def kept_def c')
    with n False show ?thesis
      by (auto intro!: acts_newI simp: c')
  qed
next
  case (Inr v)
  let ?x = "Some \<lparr>val = v, enable_wp = (if esft then Some WeakPtr else None), in_block = True\<rparr>"
  let ?t = "(heap c)\<lparr>objs := objs (heap c) @ [?x]\<rparr>"
  let ?k = "MakeSharedControlBlock (length (objs (heap c))) al"
  let ?s = "put_block (next_block (heap c)) \<lparr>shared_count = 1, weak_count = 0, kind = ?k\<rparr> (snd (allocate ?t))"
  let ?h = "\<lparr>sp_ptr = Obj (length (objs (heap c))), sp_cb = Some (next_block (heap c))\<rparr>"
  from assms(2) Inr have c': "c' = c\<lparr>heap := ?s, sps := sps c @ [Some ?h]\<rparr>"
    by (simp add: allocateShared_Inr)
  have "obj_block ?x = None"
    by (simp add: obj_block_def wp_block_def WeakPtr_def)
  with assms(1) have n: "no_embedded ?s"
    by (simp add: no_embedded_snoc)
  show ?thesis
    by (rule built_effect[OF assms(1) n _ _ _ _ _ c']) simp_all
qed

text \<open>A strong handle is added to block \<open>k\<close>.\<close>

lemma strong_inc_effect:
  assumes "no_embedded (heap c)" "blocks (heap c) k = Some blk"
    "0 < strong_refs c k \<or> shared_count blk \<noteq> 0" "sp_cb h = Some k"
    "c' = c\<lparr>heap := put_block k (blk\<lparr>shared_count := shared_count blk + 1\<rparr>) (heap c),
            sps := sps c @ [Some h]\<rparr>"
  shows "no_embedded (heap c') \<and> acts b c c'"
proof -
  have n: "no_embedded (heap c')" using assms(1) by (simp add: assms(5))
  have w: "weak_refs c' b = weak_refs c b"
    using n assms(1) by (simp add: weak_refs_client_refs) (simp add: assms(5))
  have s: "strong_refs c' b = strong_refs c b + (if k = b then 1 else 0)"
    unfolding assms(5) using assms(4) by (simp add: strong_refs_def sp_block_def)
  have nb: "next_block (heap c') = next_block (heap c)" by (simp add: assms(5))
  show ?thesis
  proof (cases "b = k")
    case True
    with w s assms(2,3) have "strong_inc b c c'"
      by (auto simp: strong_inc_def kept_def assms(5))
    with n nb show ?thesis by (auto intro!: actsI)
  next
    case False
    with w s have "stays b c c'"
      by (auto simp: stays_def kept_def assms(5))
    with n nb show ?thesis by (auto intro!: actsI)
  qed
qed

lemma weak_inc_effect:
  assumes "no_embedded (heap c)" "blocks (heap c) k = Some blk" "wp_cb w = Some k"
    "c' = c\<lparr>heap := put_block k (blk\<lparr>weak_count := weak_count blk + 1\<rparr>) (heap c),
            wps := wps c @ [Some w]\<rparr>"
  shows "no_embedded (heap c') \<and> acts b c c'"
proof -
  have n: "no_embedded (heap c')" using assms(1) by (simp add: assms(4))
  have w: "weak_refs c' b = weak_refs c b + (if k = b then 1 else 0)"
    using n assms(1,3)
    by (simp add: weak_refs_client_refs) (simp add: assms(4) client_refs_snoc wp_block_def)
  have s: "strong_refs c' b = strong_refs c b"
    by (simp add: assms(4))
  have nb: "next_block (heap c') = next_block (heap c)" by (simp add: assms(4))
  show ?thesis
  proof (cases "b = k")
    case True
    with w s assms(2) have "weak_inc b c c'"
      by (auto simp: weak_inc_def kept_def assms(4))
    with n nb show ?thesis by (auto intro!: actsI)
  next
    case False
    with w s have "stays b c c'"
      by (auto simp: stays_def kept_def assms(4))
    with n nb show ?thesis by (auto intro!: actsI)
  qed
qed

lemma exec_Copy:
  assumes "no_embedded (heap c)" "exec (Copy i) c = Some c'"
  shows "no_embedded (heap c') \<and> acts b c c'"
proof -
  from assms(2) obtain h where h: "sp_at c i = Some h" by (auto split: option.splits)
  show ?thesis
  proof (cases "sp_cb h")
    case None
    with assms(2) h have c': "c' = c\<lparr>heap := heap c, sps := sps c @ [Some \<lparr>sp_ptr = sp_ptr h, sp_cb = None\<rparr>]\<rparr>"
      by (simp add: new_sp_def SharedPtr_copy_def)
    show ?thesis
      by (rule stays_handles) (simp_all add: c' strong_refs_def sp_block_def assms(1))
  next
    case (Some k)
    with assms(2) h obtain blk where blk: "blocks (heap c) k = Some blk" and
      c': "c' = c\<lparr>heap := put_block k (blk\<lparr>shared_count := shared_count blk + 1\<rparr>) (heap c),
                  sps := sps c @ [Some \<lparr>sp_ptr = sp_ptr h, sp_cb = Some k\<rparr>]\<rparr>"
      by (auto simp: new_sp_def SharedPtr_copy_def inc_shared_count_def Let_def
          split: option.splits)
    have "0 < strong_refs c k" by (rule strong_refs_pos[OF h Some])
    then show ?thesis
      by (intro strong_inc_effect[OF assms(1) blk _ _ c']) simp_all
  qed
qed

lemma exec_Move:
  assumes "no_embedded (heap c)" "exec (Move i) c = Some c'"
  shows "no_embedded (heap c') \<and> acts b c c'"
proof -
  from assms(2) obtain h where h: "sp_at c i = Some h" by (auto split: option.splits)
  with assms(2) have c': "c' = c\<lparr>sps := (sps c)[i := Some (h\<lparr>sp_cb := None, sp_ptr := nullptr\<rparr>)] @
                [Some \<lparr>sp_ptr = sp_ptr h, sp_cb = sp_cb h\<rparr>]\<rparr>"
    by (simp add: SharedPtr_move_def)
  have s: "strong_refs c' k = strong_refs c k" for k
  proof -
    let ?d = "c\<lparr>sps := (sps c)[i := Some (h\<lparr>sp_cb := None, sp_ptr := nullptr\<rparr>)]\<rparr>"
    from strong_refs_set[OF h, of "Some (h\<lparr>sp_cb := None, sp_ptr := nullptr\<rparr>)" k]
    have "strong_refs ?d k + (if sp_cb h = Some k then 1 else 0) = strong_refs c k"
      by (simp add: sp_block_def)
    moreover have "strong_refs c' k = strong_refs ?d k + (if sp_cb h = Some k then 1 else 0)"
      by (simp add: c' strong_refs_def sp_block_def)
    ultimately show ?thesis by simp
  qed
  have "heap c' = heap c" "client_refs (wps c') k = client_refs (wps c) k" for k
    by (simp_all add: c')
  then show ?thesis
    by (rule stays_handles[OF _ s _ assms(1)])
qed

lemma exec_Weak_move:
  assumes "no_embedded (heap c)" "exec (Weak_move j) c = Some c'"
  shows "no_embedded (heap c') \<and> acts b c c'"
proof -
  from assms(2) obtain w where w: "wp_at c j = Some w" by (auto split: option.splits)
  with assms(2) have c': "c' = c\<lparr>wps := (wps c)[j := Some (w\<lparr>wp_ptr := nullptr, wp_cb := None\<rparr>)] @
                [Some \<lparr>wp_ptr = wp_ptr w, wp_cb = wp_cb w\<rparr>]\<rparr>"
    by (simp add: WeakPtr_move_def)
  from w have j: "j < length (wps c)" "wps c ! j = Some w"
    by (auto simp: wp_at_def split: if_splits)
  have s: "client_refs (wps c') k = client_refs (wps c) k" for k
    using client_refs_set[OF j, of "Some (w\<lparr>wp_ptr := nullptr, wp_cb := None\<rparr>)" k]
    by (simp add: c' client_refs_snoc wp_block_def)
  have "heap c' = heap c" "strong_refs c' k = strong_refs c k" for k
    by (simp_all add: c' strong_refs_def)
  then show ?thesis
    by (rule stays_handles[OF _ _ s assms(1)])
qed

lemma exec_Weak_copy:
  assumes "no_embedded (heap c)" "exec (Weak_copy j) c = Some c'"
  shows "no_embedded (heap c') \<and> acts b c c'"
proof -
  from assms(2) obtain w where w: "wp_at c j = Some w" by (auto split: option.splits)
  show ?thesis
  proof (cases "wp_cb w")
    case None
    with assms(2) w have c': "c' = c\<lparr>heap := heap c, wps := wps c @ [Some \<lparr>wp_ptr = wp_ptr w, wp_cb = None\<rparr>]\<rparr>"
      by (simp add: new_wp_def WeakPtr_copy_def)
    show ?thesis
      by (rule stays_handles) (simp_all add: c' client_refs_snoc wp_block_def assms(1))
  next
    case (Some k)
    with assms(2) w obtain blk where blk: "blocks (heap c) k = Some blk" and
      c': "c' = c\<lparr>heap := put_block k (blk\<lparr>weak_count := weak_count blk + 1\<rparr>) (heap c),
                  wps := wps c @ [Some \<lparr>wp_ptr = wp_ptr w, wp_cb = Some k\<rparr>]\<rparr>"
      by (auto simp: new_wp_def WeakPtr_copy_def inc_weak_count_def Let_def
          split: option.splits)
    show ?thesis
      by (intro weak_inc_effect[OF assms(1) blk _ c']) simp_all
  qed
qed

lemma exec_Lock:
  assumes "no_embedded (heap c)" "exec (Lock j) c = Some c'"
  shows "no_embedded (heap c') \<and> acts b c c'"
proof -
  from assms(2) obtain w where w: "wp_at c j = Some w" by (auto split: option.splits)
  have empty: ?thesis if "c' = c\<lparr>heap := heap c, sps := sps c @ [Some SharedPtr]\<rparr>"
    by (rule stays_handles) (simp_all add: that strong_refs_def sp_block_def SharedPtr_def assms(1))
  show ?thesis
  proof (cases "wp_cb w")
    case None
    with assms(2) w have "c' = c\<lparr>heap := heap c, sps := sps c @ [Some SharedPtr]\<rparr>"
      by (simp add: new_sp_def lock_def expired_def)
    then show ?thesis by (rule empty)
  next
    case (Some k)
    with assms(2) w obtain blk where blk: "blocks (heap c) k = Some blk"
      by (auto simp: new_sp_def lock_def expired_def split: option.splits bind_splits)
    show ?thesis
    proof (cases "shared_count blk = 0")
      case True
      with assms(2) w Some blk have "c' = c\<lparr>heap := heap c, sps := sps c @ [Some SharedPtr]\<rparr>"
        by (simp add: new_sp_def lock_def expired_def)
      then show ?thesis by (rule empty)
    next
      case False
      with assms(2) w Some blk have
        c': "c' = c\<lparr>heap := put_block k (blk\<lparr>shared_count := shared_count blk + 1\<rparr>) (heap c),
                  sps := sps c @ [Some \<lparr>sp_ptr = wp_ptr w, sp_cb = Some k\<rparr>]\<rparr>"
        by (simp add: new_sp_def lock_def expired_def SharedPtr_from_weak_def
            inc_shared_count_def)
      from False show ?thesis
        by (intro strong_inc_effect[OF assms(1) blk _ _ c']) simp_all
    qed
  qed
qed

lemma no_embedded_objs: "no_embedded (s\<lparr>objs := os\<rparr>) \<longleftrightarrow> (\<forall>x \<in> set os. obj_block x = None)"
  by (simp add: no_embedded_def)

text \<open>The destructor of a strong handle on block \<open>k\<close> leaves every other block alone.\<close>

lemma SharedPtr_dtor_frame:
  assumes "no_embedded s" "sp_cb h = Some k" "SharedPtr_dtor h s = Some s'"
  shows "no_embedded s'" "next_block s' = next_block s"
    "b \<noteq> k \<Longrightarrow> blocks s' b = blocks s b \<and> (b \<in> storage s' \<longleftrightarrow> b \<in> storage s) \<and>
       events_of b (trace s') = events_of b (trace s)"
proof -
  from SharedPtr_dtor_effect[OF assms] obtain blk where blk: "blocks s k = Some blk" and
    e: "if shared_count blk = 1
      then \<exists>ev k' os. destroys k (payload_ptr (kind blk)) ev \<and> (\<forall>x \<in> set os. obj_block x = None) \<and>
             (if weak_count blk = 0
              then s' = s\<lparr>blocks := (blocks s)(k := None), storage := storage s - {k}, objs := os,
                          trace := trace s @ [ev, Deallocate k (alloc_of (kind blk))]\<rparr>
              else s' = s\<lparr>blocks := (blocks s)(k \<mapsto> blk\<lparr>shared_count := 0, kind := k'\<rparr>),
                          objs := os, trace := trace s @ [ev]\<rparr>)
      else s' = put_block k (blk\<lparr>shared_count := shared_count blk - 1\<rparr>) s"
    by blast
  show "no_embedded s'"
    using e assms(1) by (auto simp: no_embedded_objs split: if_splits)
  show "next_block s' = next_block s"
    using e by (auto split: if_splits)
  show "blocks s' b = blocks s b \<and> (b \<in> storage s' \<longleftrightarrow> b \<in> storage s) \<and>
       events_of b (trace s') = events_of b (trace s)" if "b \<noteq> k"
    using e that by (auto simp: put_block_def dest: destroys_block_of split: if_splits)
qed

lemma strong_dec_effect:
  assumes "no_embedded (heap c)" "sp_at c i = Some h" "sp_cb h = Some k"
    "SharedPtr_dtor h (heap c) = Some s" "sp_block x = None"
    "c' = c\<lparr>heap := s, sps := (sps c)[i := x]\<rparr>"
  shows "no_embedded (heap c') \<and> acts b c c' \<and> strong_dec k c c'"
proof -
  note f = SharedPtr_dtor_frame[OF assms(1,3,4)]
  have n: "no_embedded (heap c')" using f(1) by (simp add: assms(6))
  have nb: "next_block (heap c') = next_block (heap c)" using f(2) by (simp add: assms(6))
  have w: "weak_refs c' a = weak_refs c a" for a
    using n assms(1) by (simp add: weak_refs_client_refs) (simp add: assms(6))
  have "sps c' = (sps c)[i := x]" by (simp add: assms(6))
  from strong_refs_update[OF assms(2) this] assms(3,5)
  have s: "strong_refs c' a + (if k = a then 1 else 0) = strong_refs c a" for a
    by (simp split: if_splits)
  have pos: "0 < strong_refs c k" by (rule strong_refs_pos[OF assms(2,3)])
  from SharedPtr_dtor_effect[OF assms(1,3,4)] obtain blk where blk: "blocks (heap c) k = Some blk" and
    e: "if shared_count blk = 1
      then \<exists>ev k' os. destroys k (payload_ptr (kind blk)) ev \<and> (\<forall>x \<in> set os. obj_block x = None) \<and>
             (if weak_count blk = 0
              then s = (heap c)\<lparr>blocks := (blocks (heap c))(k := None),
                          storage := storage (heap c) - {k}, objs := os,
                          trace := trace (heap c) @ [ev, Deallocate k (alloc_of (kind blk))]\<rparr>
              else s = (heap c)\<lparr>blocks := (blocks (heap c))(k \<mapsto> blk\<lparr>shared_count := 0, kind := k'\<rparr>),
                          objs := os, trace := trace (heap c) @ [ev]\<rparr>)
      else s = put_block k (blk\<lparr>shared_count := shared_count blk - 1\<rparr>) (heap c)"
    by blast
  have d: "strong_dec k c c'"
  proof (cases "shared_count blk = 1")
    case True
    with e obtain ev k' os where ev: "destroys k (payload_ptr (kind blk)) ev" and
      e': "if weak_count blk = 0
              then s = (heap c)\<lparr>blocks := (blocks (heap c))(k := None),
                          storage := storage (heap c) - {k}, objs := os,
                          trace := trace (heap c) @ [ev, Deallocate k (alloc_of (kind blk))]\<rparr>
              else s = (heap c)\<lparr>blocks := (blocks (heap c))(k \<mapsto> blk\<lparr>shared_count := 0, kind := k'\<rparr>),
                          objs := os, trace := trace (heap c) @ [ev]\<rparr>"
      by auto
    show ?thesis
    proof (cases "weak_count blk = 0")
      case wz: True
      with e' have "blocks (heap c') k = None" "k \<notin> storage (heap c')"
        "events_of k (trace (heap c')) =
           events_of k (trace (heap c)) @ [ev, Deallocate k (alloc_of (kind blk))]"
        using ev by (auto simp: assms(6) dest: destroys_block_of)
      with pos s[of k] w[of k] blk True wz ev show ?thesis
        unfolding strong_dec_def by auto
    next
      case wz: False
      with e' have "blocks (heap c') k = Some (blk\<lparr>shared_count := 0, kind := k'\<rparr>)"
        "k \<in> storage (heap c') \<longleftrightarrow> k \<in> storage (heap c)"
        "events_of k (trace (heap c')) = events_of k (trace (heap c)) @ [ev]"
        using ev by (auto simp: assms(6) dest: destroys_block_of)
      with pos s[of k] w[of k] blk True wz ev show ?thesis
        unfolding strong_dec_def by auto
    qed
  next
    case False
    with e have "blocks (heap c') k = Some (blk\<lparr>shared_count := shared_count blk - 1\<rparr>)"
      "kept k c c'"
      by (auto simp: assms(6) kept_def)
    with pos s[of k] w[of k] blk False show ?thesis
      unfolding strong_dec_def by auto
  qed
  have "acts b c c'"
  proof (cases "b = k")
    case True
    with d nb show ?thesis by (auto intro!: actsI)
  next
    case False
    with f(3)[of b] s[of b] w[of b] have "stays b c c'"
      by (auto simp: stays_def kept_def assms(6))
    with nb show ?thesis by (auto intro!: actsI)
  qed
  with n d show ?thesis by simp
qed

lemma strong_handle_gone:
  assumes "no_embedded (heap c)" "sp_at c i = Some h" "sp_cb h = None" "sp_block x = None"
    "c' = c\<lparr>heap := heap c, sps := (sps c)[i := x]\<rparr>"
  shows "no_embedded (heap c') \<and> acts b c c'"
proof -
  have "sps c' = (sps c)[i := x]" by (simp add: assms(5))
  from strong_refs_update[OF assms(2) this] assms(3,4)
  have s: "strong_refs c' a = strong_refs c a" for a
    by simp
  have "heap c' = heap c" "client_refs (wps c') a = client_refs (wps c) a" for a
    by (simp_all add: assms(5))
  then show ?thesis
    by (rule stays_handles[OF _ s _ assms(1)])
qed

lemma shared_ptr_eta: "\<lparr>sp_ptr = sp_ptr h, sp_cb = sp_cb h\<rparr> = h"
  by (cases h) simp

lemma releasing:
  assumes "exec (Release i) c = Some c' \<or> exec (Reset i) c = Some c'" "sp_at c i = Some h"
  shows "\<exists>s x. SharedPtr_dtor h (heap c) = Some s \<and> sp_block x = None \<and>
           c' = c\<lparr>heap := s, sps := (sps c)[i := x]\<rparr>"
  using assms(1)
proof
  assume "exec (Release i) c = Some c'"
  with assms(2) show ?thesis
    by (auto simp: sp_block_def split: option.splits)
next
  assume "exec (Reset i) c = Some c'"
  with assms(2) obtain s where "SharedPtr_dtor h (heap c) = Some s"
    "c' = c\<lparr>heap := s, sps := (sps c)[i := Some (h\<lparr>sp_cb := None, sp_ptr := nullptr\<rparr>)]\<rparr>"
    by (auto simp: reset_def SharedPtr_swap_def SharedPtr_def shared_ptr_eta
        split: option.splits bind_splits)
  moreover have "sp_block (Some (h\<lparr>sp_cb := None, sp_ptr := nullptr\<rparr>)) = None"
    by (simp add: sp_block_def)
  ultimately show ?thesis by blast
qed

lemma exec_Release:
  assumes "no_embedded (heap c)" "exec (Release i) c = Some c' \<or> exec (Reset i) c = Some c'"
  shows "no_embedded (heap c') \<and> acts b c c'"
proof -
  from assms(2) obtain h where h: "sp_at c i = Some h" by (auto split: option.splits)
  from releasing[OF assms(2) h] obtain s x where s: "SharedPtr_dtor h (heap c) = Some s"
    and x: "sp_block x = None" and c': "c' = c\<lparr>heap := s, sps := (sps c)[i := x]\<rparr>"
    by blast
  show ?thesis
  proof (cases "sp_cb h")
    case None
    with s have "s = heap c" by (simp add: SharedPtr_dtor_def)
    with c' have "c' = c\<lparr>heap := heap c, sps := (sps c)[i := x]\<rparr>" by simp
    from strong_handle_gone[OF assms(1) h None x this] show ?thesis .
  next
    case (Some k)
    from strong_dec_effect[OF assms(1) h Some s x c'] show ?thesis by simp
  qed
qed


lemma weak_dec_effect:
  assumes "no_embedded (heap c)" "wp_at c j = Some w" "wp_cb w = Some k"
    "WeakPtr_dtor w (heap c) = Some s" "c' = c\<lparr>heap := s, wps := (wps c)[j := None]\<rparr>"
  shows "no_embedded (heap c') \<and> acts b c c' \<and> weak_dec k c c'"
proof -
  from WeakPtr_dtor_Some_block[OF assms(4,3)] obtain blk where blk: "blocks (heap c) k = Some blk"
    by blast
  from WeakPtr_dtor_eq[OF assms(3) blk] assms(4) have
    s: "s = (if weak_count blk = 1 \<and> shared_count blk = 0
           then (heap c)\<lparr>blocks := (blocks (heap c))(k := None), storage := storage (heap c) - {k},
                  trace := trace (heap c) @ [Deallocate k (alloc_of (kind blk))]\<rparr>
           else (heap c)\<lparr>blocks := (blocks (heap c))(k \<mapsto> blk\<lparr>weak_count := weak_count blk - 1\<rparr>)\<rparr>)"
    by simp
  have n: "no_embedded (heap c')" using assms(1) by (simp add: assms(5) s)
  have nb: "next_block (heap c') = next_block (heap c)" by (simp add: assms(5) s)
  from assms(2) have j: "j < length (wps c)" "wps c ! j = Some w"
    by (auto simp: wp_at_def split: if_splits)
  have w: "weak_refs c' a + (if k = a then 1 else 0) = weak_refs c a" for a
    using n assms(1) client_refs_set[OF j, of None a] assms(3)
    by (simp add: weak_refs_client_refs) (simp add: assms(5) wp_block_def split: if_splits)
  have st: "strong_refs c' a = strong_refs c a" for a
    by (simp add: assms(5) strong_refs_def)
  have pos: "0 < weak_refs c k"
    using client_refs_pos[OF assms(2,3)] assms(1) by (simp add: weak_refs_client_refs)
  have d: "weak_dec k c c'"
  proof (cases "weak_count blk = 1 \<and> shared_count blk = 0")
    case True
    then have "blocks (heap c') k = None" "k \<notin> storage (heap c')"
      "events_of k (trace (heap c')) =
         events_of k (trace (heap c)) @ [Deallocate k (alloc_of (kind blk))]"
      by (simp_all add: assms(5) s)
    with pos w[of k] st[of k] blk True show ?thesis
      unfolding weak_dec_def by auto
  next
    case False
    then have "blocks (heap c') k = Some (blk\<lparr>weak_count := weak_count blk - 1\<rparr>)" "kept k c c'"
      by (auto simp add: assms(5) s kept_def)
    with pos w[of k] st[of k] blk False show ?thesis
      unfolding weak_dec_def by auto
  qed
  have "acts b c c'"
  proof (cases "b = k")
    case True
    with d nb show ?thesis by (auto intro!: actsI)
  next
    case False
    with w[of b] st[of b] have "stays b c c'"
      by (auto simp: stays_def kept_def assms(5) s)
    with nb show ?thesis by (auto intro!: actsI)
  qed
  with n d show ?thesis by simp
qed

lemma exec_Weak_release:
  assumes "no_embedded (heap c)" "exec (Weak_release j) c = Some c'"
  shows "no_embedded (heap c') \<and> acts b c c'"
proof -
  from assms(2) obtain w s where w: "wp_at c j = Some w" and s: "WeakPtr_dtor w (heap c) = Some s"
    and c': "c' = c\<lparr>heap := s, wps := (wps c)[j := None]\<rparr>"
    by (auto split: option.splits)
  show ?thesis
  proof (cases "wp_cb w")
    case None
    with s have e: "s = heap c" by (simp add: WeakPtr_dtor_None)
    from w have j: "j < length (wps c)" "wps c ! j = Some w"
      by (auto simp: wp_at_def split: if_splits)
    have "heap c' = heap c" "strong_refs c' a = strong_refs c a"
      "client_refs (wps c') a = client_refs (wps c) a" for a
      using client_refs_set[OF j, of None a] None
      by (simp_all add: c' e strong_refs_def wp_block_def)
    then show ?thesis
      by (rule stays_handles[OF _ _ _ assms(1)])
  next
    case (Some k)
    from weak_dec_effect[OF assms(1) w Some s c'] show ?thesis by simp
  qed
qed


text \<open>
  \<open>WeakPtr(SharedPtr<U> shp)\<close> on a handle of block \<open>k\<close>: both counters go up, then the
  destructor of the parameter runs.
\<close>

lemma WeakPtr_from_shared_steps:
  assumes "sp_cb h = Some k" "WeakPtr_from_shared h s = Some (w, s')"
  shows "\<exists>blk. blocks s k = Some blk \<and> w = \<lparr>wp_ptr = sp_ptr h, wp_cb = Some k\<rparr> \<and>
     SharedPtr_dtor \<lparr>sp_ptr = sp_ptr h, sp_cb = Some k\<rparr>
       (put_block k (blk\<lparr>shared_count := shared_count blk + 1,
                         weak_count := weak_count blk + 1\<rparr>) s) = Some s'"
  using assms
  by (auto simp: WeakPtr_from_shared_def SharedPtr_copy_def WeakPtr_ctor_body_def Let_def
      inc_shared_count_def inc_weak_count_def put_block_def
      split: bind_splits option.splits)

lemma exec_Weak_from:
  assumes "no_embedded (heap c)" "exec (Weak_from i) c = Some c'"
  shows "no_embedded (heap c') \<and> acts b c c'"
proof -
  from assms(2) obtain h w s where h: "sp_at c i = Some h"
    and ws: "WeakPtr_from_shared h (heap c) = Some (w, s)"
    and c': "c' = c\<lparr>heap := s, wps := wps c @ [Some w]\<rparr>"
    by (auto simp: new_wp_def split: option.splits)
  show ?thesis
  proof (cases "sp_cb h")
    case None
    with ws have e: "s = heap c" "wp_cb w = None"
      by (auto simp: WeakPtr_from_shared_def SharedPtr_copy_def WeakPtr_ctor_body_def
          SharedPtr_dtor_def Let_def split: bind_splits)
    have "heap c' = heap c" "strong_refs c' a = strong_refs c a"
      "client_refs (wps c') a = client_refs (wps c) a" for a
      by (simp_all add: c' e strong_refs_def client_refs_snoc wp_block_def)
    then show ?thesis
      by (rule stays_handles[OF _ _ _ assms(1)])
  next
    case (Some k)
    from WeakPtr_from_shared_steps[OF Some ws] obtain blk where blk: "blocks (heap c) k = Some blk"
      and w: "w = \<lparr>wp_ptr = sp_ptr h, wp_cb = Some k\<rparr>"
      and d: "SharedPtr_dtor \<lparr>sp_ptr = sp_ptr h, sp_cb = Some k\<rparr>
         (put_block k (blk\<lparr>shared_count := shared_count blk + 1,
                         weak_count := weak_count blk + 1\<rparr>) (heap c)) = Some s"
      by blast
    let ?h = "\<lparr>sp_ptr = sp_ptr h, sp_cb = Some k\<rparr>"
    let ?blk = "blk\<lparr>shared_count := shared_count blk + 1, weak_count := weak_count blk + 1\<rparr>"
    let ?t = "put_block k ?blk (heap c)"
    have nt: "no_embedded ?t" using assms(1) by simp
    have hk: "sp_cb ?h = Some k" by simp
    note f = SharedPtr_dtor_frame[OF nt hk d]
    have n: "no_embedded (heap c')" using f(1) by (simp add: c')
    have nb: "next_block (heap c') = next_block (heap c)" using f(2) by (simp add: c')
    have wr: "weak_refs c' a = weak_refs c a + (if k = a then 1 else 0)" for a
      using n assms(1)
      by (simp add: weak_refs_client_refs) (simp add: c' w client_refs_snoc wp_block_def)
    have st: "strong_refs c' a = strong_refs c a" for a
      by (simp add: c' strong_refs_def)
    have pos: "0 < strong_refs c k" by (rule strong_refs_pos[OF h Some])
    from SharedPtr_dtor_effect[OF nt hk d] obtain blkb where bb: "blocks ?t k = Some blkb" and
      e: "if shared_count blkb = 1
        then \<exists>ev k' os. destroys k (payload_ptr (kind blkb)) ev \<and>
               (\<forall>x \<in> set os. obj_block x = None) \<and>
               (if weak_count blkb = 0
                then s = ?t\<lparr>blocks := (blocks ?t)(k := None), storage := storage ?t - {k}, objs := os,
                            trace := trace ?t @ [ev, Deallocate k (alloc_of (kind blkb))]\<rparr>
                else s = ?t\<lparr>blocks := (blocks ?t)(k \<mapsto> blkb\<lparr>shared_count := 0, kind := k'\<rparr>),
                            objs := os, trace := trace ?t @ [ev]\<rparr>)
        else s = put_block k (blkb\<lparr>shared_count := shared_count blkb - 1\<rparr>) ?t"
      by blast
    from bb have bq: "blkb = ?blk" by simp
    have k: "weak_inc k c c' \<or> weak_inc_wrapped k c c'"
    proof (cases "shared_count blk = 0")
      case True
      then have one: "shared_count blkb = 1" by (simp add: bq)
      with e obtain ev k' os where
        e': "if weak_count blkb = 0
                then s = ?t\<lparr>blocks := (blocks ?t)(k := None), storage := storage ?t - {k}, objs := os,
                            trace := trace ?t @ [ev, Deallocate k (alloc_of (kind blkb))]\<rparr>
                else s = ?t\<lparr>blocks := (blocks ?t)(k \<mapsto> blkb\<lparr>shared_count := 0, kind := k'\<rparr>),
                            objs := os, trace := trace ?t @ [ev]\<rparr>"
        by auto
      have wq: "weak_count blkb = weak_count blk + 1" by (simp add: bq)
      have "case blocks (heap c') k of
           None \<Rightarrow> weak_count blk + 1 = 0 \<and> k \<notin> storage (heap c')
         | Some blk' \<Rightarrow>
             shared_count blk' = 0 \<and> weak_count blk' = weak_count blk + 1 \<and>
             (k \<in> storage (heap c') \<longleftrightarrow> k \<in> storage (heap c))"
      proof (cases "weak_count blkb = 0")
        case wz: True
        with e' have "blocks (heap c') k = None" "k \<notin> storage (heap c')"
          by (simp_all add: c')
        with wz wq show ?thesis by simp
      next
        case wz: False
        with e' have "blocks (heap c') k = Some (blkb\<lparr>shared_count := 0, kind := k'\<rparr>)"
          "k \<in> storage (heap c') \<longleftrightarrow> k \<in> storage (heap c)"
          by (simp_all add: c')
        with wq show ?thesis by simp
      qed
      with pos st[of k] wr[of k] blk True have "weak_inc_wrapped k c c'"
        unfolding weak_inc_wrapped_def by auto
      then show ?thesis ..
    next
      case False
      then have "shared_count blkb \<noteq> 1" by (simp add: bq)
      with e have "s = put_block k (blkb\<lparr>shared_count := shared_count blkb - 1\<rparr>) ?t"
        by simp
      then have "blocks (heap c') k = Some (blk\<lparr>weak_count := weak_count blk + 1\<rparr>)" "kept k c c'"
        by (simp_all add: c' kept_def bq)
      with st[of k] wr[of k] blk have "weak_inc k c c'"
        unfolding weak_inc_def by auto
      then show ?thesis ..
    qed
    have "acts b c c'"
    proof (cases "b = k")
      case True
      with k nb show ?thesis by (auto intro!: actsI)
    next
      case False
      with f(3)[of b] st[of b] wr[of b] have "stays b c c'"
        by (auto simp: stays_def kept_def c')
      with nb show ?thesis by (auto intro!: actsI)
    qed
    with n show ?thesis by simp
  qed
qed

text \<open>Every operation, seen from every block.\<close>

lemma exec_acts:
  assumes "no_embedded (heap c)" "exec x c = Some c'"
  shows "no_embedded (heap c') \<and> acts b c c'"
proof (cases x)
  case (New v esft)
  with assms show ?thesis by (simp only: exec_New)
next
  case (Adopt esft p)
  with assms exec_Adopt[where c = c and c' = c' and esft = esft and p = p] show ?thesis by blast
next
  case (Adopt_deleter esft p d)
  with assms exec_Adopt[where c = c and c' = c' and esft = esft and p = p and d = d] show ?thesis by blast
next
  case (Adopt_deleter_alloc esft p d al)
  with assms exec_Adopt[where c = c and c' = c' and esft = esft and p = p and d = d and al = al]
  show ?thesis by blast
next
  case (Make r esft al)
  with assms show ?thesis by (simp only: exec_Make)
next
  case (Copy i)
  with assms show ?thesis by (simp only: exec_Copy)
next
  case (Move i)
  with assms show ?thesis by (simp only: exec_Move)
next
  case (Release i)
  with assms exec_Release[of c i c'] show ?thesis by blast
next
  case (Reset i)
  with assms exec_Release[of c i c'] show ?thesis by blast
next
  case (Weak_from i)
  with assms show ?thesis by (simp only: exec_Weak_from)
next
  case (Weak_copy j)
  with assms show ?thesis by (simp only: exec_Weak_copy)
next
  case (Weak_move j)
  with assms show ?thesis by (simp only: exec_Weak_move)
next
  case (Weak_release j)
  with assms show ?thesis by (simp only: exec_Weak_release)
next
  case (Lock j)
  with assms show ?thesis by (simp only: exec_Lock)
qed

section \<open>What holds of every block\<close>

lemma of_nat_zero_wraps:
  assumes "(of_nat n :: uint) = 0" "0 < n"
  shows "2 ^ 32 \<le> n"
proof -
  from assms(1) have "2 ^ LENGTH(32) dvd n"
    by (simp only: word_of_nat_eq_0_iff)
  with assms(2) show ?thesis
    by (auto dest: dvd_imp_le)
qed

lemma unat_of_nat_small: "n < 2 ^ 32 \<Longrightarrow> unat (of_nat n :: uint) = n"
  by (simp add: unsigned_of_nat take_bit_nat_eq_self)

lemma of_nat_small_iff:
  assumes "n < 2 ^ 32"
  shows "(of_nat n :: uint) = 0 \<longleftrightarrow> n = 0" "(of_nat n :: uint) = 1 \<longleftrightarrow> n = 1"
proof -
  show "(of_nat n :: uint) = 0 \<longleftrightarrow> n = 0"
    using of_nat_zero_wraps[of n] assms by auto
  have "(of_nat n :: uint) = 1 \<longleftrightarrow> unat (of_nat n :: uint) = 1"
    by (metis unat_eq_1)
  then show "(of_nat n :: uint) = 1 \<longleftrightarrow> n = 1"
    using assms by (simp add: unat_of_nat_small)
qed

lemma of_nat_pred:
  "m + 1 = n \<Longrightarrow> (of_nat m :: uint) = of_nat n - 1"
  by auto

lemma block_ok_stays: "block_ok c b \<Longrightarrow> stays b c c' \<Longrightarrow>
    next_block (heap c) \<le> next_block (heap c') \<Longrightarrow>
    (next_block (heap c) \<le> b \<and> b < next_block (heap c') \<longrightarrow> False) \<Longrightarrow> block_ok c' b"
  by (auto simp: block_ok_def stays_def kept_def)

lemma block_ok_strong_inc: "block_ok c b \<Longrightarrow> strong_inc b c c' \<Longrightarrow>
    next_block (heap c) \<le> next_block (heap c') \<Longrightarrow> block_ok c' b"
  by (auto simp: block_ok_def strong_inc_def kept_def)

lemma block_ok_weak_inc: "block_ok c b \<Longrightarrow> weak_inc b c c' \<Longrightarrow>
    next_block (heap c) \<le> next_block (heap c') \<Longrightarrow> block_ok c' b"
  by (auto simp: block_ok_def weak_inc_def kept_def)

lemma block_ok_built: "block_ok c b \<Longrightarrow> built b c c' \<Longrightarrow> block_ok c' b"
  by (auto simp: block_ok_def built_def)

lemma block_ok_raw_storage: "block_ok c b \<Longrightarrow> raw_storage b c c' \<Longrightarrow> block_ok c' b"
  by (auto simp: block_ok_def raw_storage_def)

lemma block_ok_strong_dec:
  assumes "block_ok c b" "strong_dec b c c'" "next_block (heap c) \<le> next_block (heap c')"
  shows "block_ok c' b"
proof -
  from assms(2) obtain blk where blk: "blocks (heap c) b = Some blk"
    and pos: "0 < strong_refs c b" and s: "strong_refs c' b + 1 = strong_refs c b"
    and w: "weak_refs c' b = weak_refs c b"
    and e: "if shared_count blk = 1
         then \<exists>ev. destroys b (payload_ptr (kind blk)) ev \<and>
                (if weak_count blk = 0
                 then blocks (heap c') b = None \<and> b \<notin> storage (heap c') \<and>
                      events_of b (trace (heap c')) =
                        events_of b (trace (heap c)) @ [ev, Deallocate b (alloc_of (kind blk))]
                 else (\<exists>k. blocks (heap c') b = Some (blk\<lparr>shared_count := 0, kind := k\<rparr>)) \<and>
                      (b \<in> storage (heap c') \<longleftrightarrow> b \<in> storage (heap c)) \<and>
                      events_of b (trace (heap c')) = events_of b (trace (heap c)) @ [ev])
         else blocks (heap c') b = Some (blk\<lparr>shared_count := shared_count blk - 1\<rparr>) \<and>
              kept b c c'"
    unfolding strong_dec_def by blast
  from assms(1) blk have sc: "shared_count blk = of_nat (strong_refs c b)"
    and wc: "weak_count blk = of_nat (weak_refs c b)" and st: "b \<in> storage (heap c)"
    and nb: "b < next_block (heap c)"
    by (auto simp: block_ok_def)
  have sc': "(of_nat (strong_refs c' b) :: uint) = shared_count blk - 1"
    using of_nat_pred[OF s] sc by simp
  have z: "2 ^ 32 \<le> strong_refs c' b" if "shared_count blk = 1" "0 < strong_refs c' b"
    using sc' that by (intro of_nat_zero_wraps) simp_all
  have zw: "2 ^ 32 \<le> weak_refs c' b" if "weak_count blk = 0" "0 < weak_refs c' b"
    using wc w that by (intro of_nat_zero_wraps) simp_all
  from nb assms(3) have nb': "b < next_block (heap c')" by simp
  show ?thesis
  proof (cases "shared_count blk = 1")
    case True
    show ?thesis
    proof (cases "weak_count blk = 0")
      case wz: True
      with e True have "blocks (heap c') b = None" "b \<notin> storage (heap c')" by auto
      with z zw True wz nb' show ?thesis
        by (auto simp: block_ok_def)
    next
      case wz: False
      with e True obtain k where "blocks (heap c') b = Some (blk\<lparr>shared_count := 0, kind := k\<rparr>)"
        "b \<in> storage (heap c') \<longleftrightarrow> b \<in> storage (heap c)"
        by auto
      with sc' True wc w st nb' show ?thesis
        by (auto simp: block_ok_def)
    qed
  next
    case False
    with e have "blocks (heap c') b = Some (blk\<lparr>shared_count := shared_count blk - 1\<rparr>)"
      "b \<in> storage (heap c') \<longleftrightarrow> b \<in> storage (heap c)"
      by (auto simp: kept_def)
    with sc' wc w st nb' show ?thesis
      by (auto simp: block_ok_def)
  qed
qed

lemma block_ok_weak_dec:
  assumes "block_ok c b" "weak_dec b c c'" "next_block (heap c) \<le> next_block (heap c')"
  shows "block_ok c' b"
proof -
  from assms(2) obtain blk where blk: "blocks (heap c) b = Some blk"
    and pos: "0 < weak_refs c b" and w: "weak_refs c' b + 1 = weak_refs c b"
    and s: "strong_refs c' b = strong_refs c b"
    and e: "if weak_count blk = 1 \<and> shared_count blk = 0
         then blocks (heap c') b = None \<and> b \<notin> storage (heap c') \<and>
              events_of b (trace (heap c')) =
                events_of b (trace (heap c)) @ [Deallocate b (alloc_of (kind blk))]
         else blocks (heap c') b = Some (blk\<lparr>weak_count := weak_count blk - 1\<rparr>) \<and>
              kept b c c'"
    unfolding weak_dec_def by blast
  from assms(1) blk have sc: "shared_count blk = of_nat (strong_refs c b)"
    and wc: "weak_count blk = of_nat (weak_refs c b)" and st: "b \<in> storage (heap c)"
    and nb: "b < next_block (heap c)"
    by (auto simp: block_ok_def)
  have wc': "(of_nat (weak_refs c' b) :: uint) = weak_count blk - 1"
    using of_nat_pred[OF w] wc by simp
  have z: "2 ^ 32 \<le> weak_refs c' b" if "weak_count blk = 1" "0 < weak_refs c' b"
    using wc' that by (intro of_nat_zero_wraps) simp_all
  have zs: "2 ^ 32 \<le> strong_refs c' b" if "shared_count blk = 0" "0 < strong_refs c' b"
    using sc s that by (intro of_nat_zero_wraps) simp_all
  from nb assms(3) have nb': "b < next_block (heap c')" by simp
  show ?thesis
  proof (cases "weak_count blk = 1 \<and> shared_count blk = 0")
    case True
    with e have "blocks (heap c') b = None" "b \<notin> storage (heap c')" by auto
    with z zs True nb' show ?thesis
      by (auto simp: block_ok_def)
  next
    case False
    with e have "blocks (heap c') b = Some (blk\<lparr>weak_count := weak_count blk - 1\<rparr>)"
      "b \<in> storage (heap c') \<longleftrightarrow> b \<in> storage (heap c)"
      by (auto simp: kept_def)
    with wc' sc s st nb' show ?thesis
      by (auto simp: block_ok_def)
  qed
qed

lemma block_ok_weak_inc_wrapped:
  assumes "block_ok c b" "weak_inc_wrapped b c c'" "next_block (heap c) \<le> next_block (heap c')"
  shows "block_ok c' b"
proof -
  from assms(2) obtain blk where blk: "blocks (heap c) b = Some blk"
    and pos: "0 < strong_refs c b" and s: "strong_refs c' b = strong_refs c b"
    and w: "weak_refs c' b = weak_refs c b + 1" and z: "shared_count blk = 0"
    and e: "case blocks (heap c') b of
           None \<Rightarrow> weak_count blk + 1 = 0 \<and> b \<notin> storage (heap c')
         | Some blk' \<Rightarrow>
             shared_count blk' = 0 \<and> weak_count blk' = weak_count blk + 1 \<and>
             (b \<in> storage (heap c') \<longleftrightarrow> b \<in> storage (heap c))"
    unfolding weak_inc_wrapped_def by blast
  from assms(1) blk have sc: "shared_count blk = of_nat (strong_refs c b)"
    and wc: "weak_count blk = of_nat (weak_refs c b)" and st: "b \<in> storage (heap c)"
    and nb: "b < next_block (heap c)"
    by (auto simp: block_ok_def)
  have wc': "(of_nat (weak_refs c' b) :: uint) = weak_count blk + 1"
    using w wc by simp
  have zs: "2 ^ 32 \<le> strong_refs c' b"
    using sc s z pos by (intro of_nat_zero_wraps) simp_all
  from nb assms(3) have nb': "b < next_block (heap c')" by simp
  show ?thesis
  proof (cases "blocks (heap c') b")
    case None
    with e have "weak_count blk + 1 = 0" "b \<notin> storage (heap c')" by simp_all
    with wc' have "2 ^ 32 \<le> weak_refs c' b"
      using w by (intro of_nat_zero_wraps) simp_all
    with None zs nb' \<open>b \<notin> storage (heap c')\<close> show ?thesis
      by (auto simp: block_ok_def)
  next
    case (Some blk')
    with e have "shared_count blk' = 0" "weak_count blk' = weak_count blk + 1"
      "b \<in> storage (heap c') \<longleftrightarrow> b \<in> storage (heap c)"
      by simp_all
    with Some wc' sc s z st nb' show ?thesis
      by (auto simp: block_ok_def)
  qed
qed

lemma block_ok_acts:
  assumes "block_ok c b" "acts b c c'"
  shows "block_ok c' b"
proof -
  from assms(2) have nb: "next_block (heap c) \<le> next_block (heap c')"
    and fr: "next_block (heap c) \<le> b \<and> b < next_block (heap c') \<longrightarrow>
        built b c c' \<or> raw_storage b c c'"
    and a: "stays b c c' \<or> strong_inc b c c' \<or> strong_dec b c c' \<or> weak_inc b c c' \<or>
      weak_inc_wrapped b c c' \<or> weak_dec b c c' \<or> built b c c' \<or> raw_storage b c c'"
    by (simp_all add: acts_def)
  show ?thesis
  proof (cases "built b c c' \<or> raw_storage b c c'")
    case True
    with assms(1) show ?thesis
      by (auto intro: block_ok_built block_ok_raw_storage)
  next
    case False
    with fr have "next_block (heap c) \<le> b \<and> b < next_block (heap c') \<longrightarrow> False" by blast
    with False a assms(1) nb show ?thesis
      by (auto intro: block_ok_stays block_ok_strong_inc block_ok_strong_dec block_ok_weak_inc
          block_ok_weak_inc_wrapped block_ok_weak_dec)
  qed
qed

lemma config_ok_init: "config_ok init"
  by (simp add: config_ok_def block_ok_def no_embedded_def init_def empty_state_def
      strong_refs_def weak_refs_def embedded_refs_def)

lemma config_ok_exec:
  assumes "config_ok c" "exec x c = Some c'"
  shows "config_ok c'"
  unfolding config_ok_def
proof (intro conjI allI)
  from assms(1) have n: "no_embedded (heap c)" by (simp add: config_ok_def)
  from exec_acts[OF n assms(2)] show "no_embedded (heap c')" by simp
  fix b
  from assms(1) have "block_ok c b" by (simp add: config_ok_def)
  moreover from exec_acts[OF n assms(2)] have "acts b c c'" by simp
  ultimately show "block_ok c' b" by (rule block_ok_acts)
qed

lemma config_ok_run:
  "config_ok c \<Longrightarrow> run ops c = Some c' \<Longrightarrow> config_ok c'"
proof (induction ops arbitrary: c)
  case Nil
  then show ?case by simp
next
  case (Cons x xs)
  from Cons.prems(2) obtain d where d: "exec x c = Some d" "run xs d = Some c'"
    by (auto split: option.splits)
  from config_ok_exec[OF Cons.prems(1) d(1)] d(2) show ?case
    by (rule Cons.IH)
qed

lemma config_ok_reached: "run ops init = Some c \<Longrightarrow> config_ok c"
  by (rule config_ok_run[OF config_ok_init])

lemma config_ok_acts:
  assumes "config_ok c" "exec x c = Some c'"
  shows "acts b c c'"
  using exec_acts[of c x c' b] assms by (simp add: config_ok_def)

section \<open>Blocks with fewer than \<open>2\<^sup>3\<^sup>2\<close> strong handles\<close>


lemma always_last: "run xs c = Some d \<Longrightarrow> always P xs c \<Longrightarrow> P d"
proof (induction xs arbitrary: c)
  case Nil
  then show ?case by simp
next
  case (Cons x xs)
  then show ?case by (auto split: option.splits)
qed

lemma block_ok_counters:
  assumes "config_ok c" "blocks (heap c) b = Some blk"
  shows "shared_count blk = of_nat (strong_refs c b)" "weak_count blk = of_nat (weak_refs c b)"
    "b < next_block (heap c)"
  using assms by (auto simp: config_ok_def block_ok_def)

lemma block_ok_fresh:
  assumes "config_ok c" "next_block (heap c) \<le> b"
  shows "strong_refs c b = 0" "weak_refs c b = 0" "events_of b (trace (heap c)) = []"
    "blocks (heap c) b = None"
proof -
  from assms(1) have b: "block_ok c b" by (simp add: config_ok_def)
  with assms(2) show "strong_refs c b = 0" "weak_refs c b = 0" "events_of b (trace (heap c)) = []"
    by (simp_all add: block_ok_def)
  show "blocks (heap c) b = None"
  proof (rule ccontr)
    assume "blocks (heap c) b \<noteq> None"
    then obtain blk where "blocks (heap c) b = Some blk" by auto
    from block_ok_counters(3)[OF assms(1) this] assms(2) show False by simp
  qed
qed


text \<open>With fewer than \<open>2\<^sup>3\<^sup>2\<close> strong handles, the strong counter is their number.\<close>

lemma few_strong_counter:
  assumes "config_ok c" "few_strong b c" "blocks (heap c) b = Some blk"
  shows "unat (shared_count blk) = strong_refs c b"
    "shared_count blk = 0 \<longleftrightarrow> strong_refs c b = 0"
    "shared_count blk = 1 \<longleftrightarrow> strong_refs c b = 1"
proof -
  from assms(2) have s: "strong_refs c b < 2 ^ 32" by (simp add: few_strong_def)
  note e = block_ok_counters(1)[OF assms(1,3)]
  show "unat (shared_count blk) = strong_refs c b"
    unfolding e by (rule unat_of_nat_small[OF s])
  show "shared_count blk = 0 \<longleftrightarrow> strong_refs c b = 0"
    unfolding e by (rule of_nat_small_iff(1)[OF s])
  show "shared_count blk = 1 \<longleftrightarrow> strong_refs c b = 1"
    unfolding e by (rule of_nat_small_iff(2)[OF s])
qed





text \<open>The life of a block goes on, one operation at a time.\<close>

lemma life_acts:
  assumes "config_ok c" "few_strong b c" "life b p c" "acts b c c'"
  shows "life b p c'"
proof -
  from assms(4) have nb: "next_block (heap c) \<le> next_block (heap c')"
    and a: "stays b c c' \<or> strong_inc b c c' \<or> strong_dec b c c' \<or> weak_inc b c c' \<or>
      weak_inc_wrapped b c c' \<or> weak_dec b c c' \<or> built b c c' \<or> raw_storage b c c'"
    by (simp_all add: acts_def)
  from assms(3) have lt: "b < next_block (heap c)" by (simp add: life_def)
  with nb have lt': "b < next_block (heap c')" by simp
  from lt have nbr: "\<not> built b c c'" "\<not> raw_storage b c c'"
    by (auto simp: built_def raw_storage_def)
  have nw: "\<not> weak_inc_wrapped b c c'"
  proof
    assume "weak_inc_wrapped b c c'"
    then obtain blk where "0 < strong_refs c b" "blocks (heap c) b = Some blk" "shared_count blk = 0"
      unfolding weak_inc_wrapped_def by blast
    with few_strong_counter(2)[OF assms(1,2) this(2)] show False by simp
  qed
  from a nbr nw consider "stays b c c'" | "strong_inc b c c'" | "strong_dec b c c'"
    | "weak_inc b c c'" | "weak_dec b c c'"
    by blast
  then show ?thesis
  proof cases
    case 1
    then have "blocks (heap c') b = blocks (heap c) b" "strong_refs c' b = strong_refs c b"
      "events_of b (trace (heap c')) = events_of b (trace (heap c))"
      by (simp_all add: stays_def kept_def)
    with assms(3) lt' show ?thesis
      by (auto simp: life_def split: if_splits)
  next
    case 2
    then obtain blk where blk: "blocks (heap c) b = Some blk"
      and s: "strong_refs c' b = strong_refs c b + 1" and k: "kept b c c'"
      and z: "0 < strong_refs c b \<or> shared_count blk \<noteq> 0"
      and b': "blocks (heap c') b = Some (blk\<lparr>shared_count := shared_count blk + 1\<rparr>)"
      unfolding strong_inc_def by blast
    from z few_strong_counter(2)[OF assms(1,2) blk] have "0 < strong_refs c b" by auto
    with assms(3) blk s k b' lt' show ?thesis
      by (simp add: life_def kept_def)
  next
    case 3
    then obtain blk where blk: "blocks (heap c) b = Some blk"
      and pos: "0 < strong_refs c b" and s: "strong_refs c' b + 1 = strong_refs c b"
      and e: "if shared_count blk = 1
         then \<exists>ev. destroys b (payload_ptr (kind blk)) ev \<and>
                (if weak_count blk = 0
                 then blocks (heap c') b = None \<and> b \<notin> storage (heap c') \<and>
                      events_of b (trace (heap c')) =
                        events_of b (trace (heap c)) @ [ev, Deallocate b (alloc_of (kind blk))]
                 else (\<exists>k. blocks (heap c') b = Some (blk\<lparr>shared_count := 0, kind := k\<rparr>)) \<and>
                      (b \<in> storage (heap c') \<longleftrightarrow> b \<in> storage (heap c)) \<and>
                      events_of b (trace (heap c')) = events_of b (trace (heap c)) @ [ev])
         else blocks (heap c') b = Some (blk\<lparr>shared_count := shared_count blk - 1\<rparr>) \<and>
              kept b c c'"
      unfolding strong_dec_def by blast
    from assms(3) pos blk have ev: "events_of b (trace (heap c)) = [Allocate b]"
      and p: "payload_ptr (kind blk) = p"
      by (simp_all add: life_def)
    note one = few_strong_counter(3)[OF assms(1,2) blk]
    show ?thesis
    proof (cases "shared_count blk = 1")
      case True
      with one s have z: "strong_refs c' b = 0" by simp
      from True e ev p z lt' show ?thesis
        by (auto simp: life_def split: if_splits)
    next
      case False
      with one s pos have "0 < strong_refs c' b" by simp
      with False e ev p lt' show ?thesis
        by (auto simp: life_def kept_def)
    qed
  next
    case 4
    then obtain blk where blk: "blocks (heap c) b = Some blk"
      and s: "strong_refs c' b = strong_refs c b" and k: "kept b c c'"
      and b': "blocks (heap c') b = Some (blk\<lparr>weak_count := weak_count blk + 1\<rparr>)"
      unfolding weak_inc_def by blast
    with assms(3) lt' show ?thesis
      by (auto simp: life_def kept_def)
  next
    case 5
    then obtain blk where blk: "blocks (heap c) b = Some blk"
      and s: "strong_refs c' b = strong_refs c b"
      and e: "if weak_count blk = 1 \<and> shared_count blk = 0
         then blocks (heap c') b = None \<and> b \<notin> storage (heap c') \<and>
              events_of b (trace (heap c')) =
                events_of b (trace (heap c)) @ [Deallocate b (alloc_of (kind blk))]
         else blocks (heap c') b = Some (blk\<lparr>weak_count := weak_count blk - 1\<rparr>) \<and>
              kept b c c'"
      unfolding weak_dec_def by blast
    note zero = few_strong_counter(2)[OF assms(1,2) blk]
    show ?thesis
    proof (cases "weak_count blk = 1 \<and> shared_count blk = 0")
      case True
      with zero have "strong_refs c b = 0" by simp
      with True e assms(3) blk s lt' show ?thesis
        by (auto simp: life_def)
    next
      case False
      with e assms(3) blk s lt' show ?thesis
        by (auto simp: life_def kept_def)
    qed
  qed
qed

lemma life_run:
  "config_ok c \<Longrightarrow> life b p c \<Longrightarrow> run ops c = Some c' \<Longrightarrow> always (few_strong b) ops c \<Longrightarrow>
     life b p c'"
proof (induction ops arbitrary: c)
  case Nil
  then show ?case by simp
next
  case (Cons x xs)
  from Cons.prems(3) obtain d where d: "exec x c = Some d" "run xs d = Some c'"
    by (auto split: option.splits)
  from Cons.prems(4) d(1) have f: "few_strong b c" "always (few_strong b) xs d"
    by simp_all
  from life_acts[OF Cons.prems(1) f(1) Cons.prems(2) config_ok_acts[OF Cons.prems(1) d(1)]]
  have "life b p d" .
  from Cons.IH[OF config_ok_exec[OF Cons.prems(1) d(1)] this d(2) f(2)] show ?case .
qed








lemma filter_destroy_events:
  "filter (is_destroy b) (trace s) = filter (is_destroy b) (events_of b (trace s))"
  by (rule filter_events_of[symmetric]) (rule is_destroy_block_of)

lemma life_destroyed:
  assumes "life b p c"
  shows "0 < strong_refs c b \<Longrightarrow> filter (is_destroy b) (trace (heap c)) = []"
    "strong_refs c b = 0 \<Longrightarrow>
       \<exists>ev. destroys b p ev \<and> filter (is_destroy b) (trace (heap c)) = [ev]"
proof -
  show "filter (is_destroy b) (trace (heap c)) = []" if "0 < strong_refs c b"
    using assms that unfolding filter_destroy_events by (simp add: life_def)
  show "\<exists>ev. destroys b p ev \<and> filter (is_destroy b) (trace (heap c)) = [ev]"
    if "strong_refs c b = 0"
  proof -
    from assms that obtain ev where ev: "destroys b p ev"
      and e: "if blocks (heap c) b = None
              then \<exists>al. events_of b (trace (heap c)) = [Allocate b, ev, Deallocate b al]
              else events_of b (trace (heap c)) = [Allocate b, ev]"
      by (auto simp: life_def)
    from ev have "is_destroy b ev" by (rule destroys_is_destroy)
    with e have "filter (is_destroy b) (trace (heap c)) = [ev]"
      unfolding filter_destroy_events by (auto split: if_splits)
    with ev show ?thesis by blast
  qed
qed

text \<open>The block that an adoption with the pointer, or the factory, builds.\<close>

lemma stores_pointer_built:
  assumes "config_ok c" "stores_pointer x" "exec x c = Some c'"
    "sp_at c' (length (sps c)) = Some h"
  shows "sp_cb h = Some (next_block (heap c)) \<and> life (next_block (heap c)) (sp_ptr h) c'"
proof -
  note f = block_ok_fresh[OF assms(1) order_refl]
  have new: ?thesis
    if c': "c' = c\<lparr>heap := put_block (next_block (heap c))
                   \<lparr>shared_count = 1, weak_count = 0, kind = k\<rparr> (snd (allocate s)),
                 sps := sps c @ [Some \<lparr>sp_ptr = p, sp_cb = Some (next_block (heap c))\<rparr>]\<rparr>"
      and s: "next_block s = next_block (heap c)" "trace s = trace (heap c)"
      and k: "payload_ptr k = p"
    for k p s
  proof -
    from assms(4) have h: "h = \<lparr>sp_ptr = p, sp_cb = Some (next_block (heap c))\<rparr>"
      by (simp add: c' sp_at_def)
    have "strong_refs c' (next_block (heap c)) = strong_refs c (next_block (heap c)) + 1"
      by (simp add: c' strong_refs_def sp_block_def)
    with f s k show ?thesis
      by (simp add: life_def h c' allocate_def emit_def)
  qed
  show ?thesis
  proof (cases x)
    case (Adopt esft p)
    with assms(3) have "\<not> esft" by (cases esft) (simp_all add: new_sp_def)
    with Adopt assms(3) show ?thesis
      by (intro new[where s = "heap c" and p = p]) (auto simp: new_sp_def adopt_results payload_ptr_def)
  next
    case (Adopt_deleter esft p d)
    with assms(3) have "\<not> esft" by (cases esft) (simp_all add: new_sp_def)
    with Adopt_deleter assms(3) show ?thesis
      by (intro new[where s = "heap c" and p = p]) (auto simp: new_sp_def adopt_results payload_ptr_def)
  next
    case (Make r esft al)
    show ?thesis
    proof (cases r)
      case (Inl e)
      with Make assms(3) have "sps c' = sps c"
        by (auto simp: allocateShared_def split_beta)
      with assms(4) show ?thesis by (simp add: sp_at_def)
    next
      case (Inr v)
      with Make assms(3) show ?thesis
        by (intro new[where p = "Obj (length (objs (heap c)))" and
              k = "MakeSharedControlBlock (length (objs (heap c))) al" and
              s = "(heap c)\<lparr>objs := objs (heap c) @
                     [Some \<lparr>val = v, enable_wp = (if esft then Some WeakPtr else None),
                            in_block = True\<rparr>]\<rparr>"])
          (simp_all add: allocateShared_Inr payload_ptr_def)
    qed
  qed (use assms(2) in \<open>simp_all add: stores_pointer_def\<close>)
qed

section \<open>Claims about single operations\<close>

subsection \<open>C3: promotion of a weak handle\<close>

text \<open>
  C3, as amended. For a weak handle \<open>w\<close> that is empty or whose block is still there,
  \<open>lock\<close> returns. If \<open>w\<close> is expired, the result is the empty strong handle
  (\<open>use_count() = 0\<close>, \<open>get()\<close> null) and nothing changes. Otherwise the result shares
  the block and the pointer of \<open>w\<close>, and its \<open>use_count()\<close> is the strong counter before
  the call plus one in 32-bit arithmetic: one greater, and so not zero, whenever the
  counter was below \<open>2\<^sup>3\<^sup>2 - 1\<close>.
\<close>

theorem lock_result:
  assumes "\<And>b. wp_cb w = Some b \<Longrightarrow> blocks s b \<noteq> None"
  shows "\<exists>e h s'. expired w s = Some e \<and> lock w s = Some (h, s') \<and>
           (if e
            then h = SharedPtr \<and> s' = s \<and> SharedPtr_use_count h s' = Some 0 \<and> get h = nullptr
            else \<exists>b blk. wp_cb w = Some b \<and> blocks s b = Some blk \<and>
                   sp_cb h = Some b \<and> get h = wp_ptr w \<and>
                   SharedPtr_use_count h s' = Some (shared_count blk + 1) \<and>
                   (unat (shared_count blk) < 2 ^ 32 - 1 \<longrightarrow>
                      unat (shared_count blk + 1) = unat (shared_count blk) + 1 \<and>
                      SharedPtr_use_count h s' \<noteq> Some 0))"
proof (cases "wp_cb w")
  case None
  then show ?thesis
    by (auto simp add: expired_def lock_def SharedPtr_def SharedPtr_use_count_def get_def)
next
  case (Some b)
  with assms obtain blk where blk: "blocks s b = Some blk"
    by auto
  show ?thesis
    using Some blk unat_inc[of "shared_count blk"]
    by (auto simp add: expired_def lock_def SharedPtr_def SharedPtr_use_count_def get_def
        SharedPtr_from_weak_def heap_defs)
qed

text \<open>
  The theorem at work: a weak handle to a block with two strong handles is locked, and
  the new handle reports three.
\<close>

theorem lock_result_witness:
  "\<exists>h s'. lock \<lparr>wp_ptr = Obj 0, wp_cb = Some 0\<rparr>
       (empty_state\<lparr>blocks := [0 \<mapsto> \<lparr>shared_count = 2, weak_count = 1,
          kind = RegularControlBlock (Obj 0) Default_delete Std_allocator\<rparr>]\<rparr> :: unit state)
        = Some (h, s') \<and>
      sp_cb h = Some 0 \<and> get h = Obj 0 \<and> SharedPtr_use_count h s' = Some 3"
  using lock_result[of "\<lparr>wp_ptr = Obj 0, wp_cb = Some 0\<rparr>"
      "empty_state\<lparr>blocks := [0 \<mapsto> \<lparr>shared_count = 2, weak_count = 1,
          kind = RegularControlBlock (Obj 0) Default_delete Std_allocator\<rparr>]\<rparr> :: unit state"]
  by (auto simp add: expired_def empty_state_def)

text \<open>
  C3 as stated fails where the counter wraps. After a null pointer has been adopted and
  its handle copied \<open>2\<^sup>3\<^sup>2 - 2\<close> times, the weak handle is not expired, and \<open>lock\<close>
  returns a handle with \<open>use_count() = 0\<close> and \<open>get()\<close> null: an empty handle in all that
  can be observed, and a count that is not one greater than before.
\<close>

theorem lock_result_counterexample:
  "do {
     c \<leftarrow> run (Adopt False nullptr # Weak_from 0 # replicate wrap_copies (Copy 0))
            (init :: unit config);
     w \<leftarrow> wp_at c 0;
     e \<leftarrow> expired w (heap c);
     before \<leftarrow> WeakPtr_use_count w (heap c);
     (h, s') \<leftarrow> lock w (heap c);
     u \<leftarrow> SharedPtr_use_count h s';
     Some (e, unat before, unat u, get h)
   } = Some (False, 2 ^ 32 - 1, 0, nullptr)"
  unfolding run_to_the_brim
  by (simp add: wp_at_def expired_def lock_def SharedPtr_from_weak_def SharedPtr_use_count_def
      WeakPtr_use_count_def get_def heap_defs unsigned_minus_1_eq_mask mask_eq_exp_minus_1)

subsection \<open>C5: the factory\<close>

text \<open>
  C5. When the constructor of the payload succeeds, \<open>allocateShared\<close> allocates one
  block (one \<open>Allocate\<close> event, one new entry of \<open>storage\<close>), builds in it a
  \<open>MakeSharedControlBlock\<close> whose inline storage holds the payload made from the
  arguments, with strong counter 1, weak counter 0 and the given allocator, and returns
  a strong handle to that block whose pointer is the address of the inline storage.
  \<open>makeShared\<close> does the same with the default allocator.
\<close>

theorem allocateShared_result:
  assumes "ctor args = Inr v"
  shows "\<exists>h s'. allocateShared ctor esft alloc args s = (Inr h, s') \<and>
      sp_cb h = Some (next_block s) \<and>
      get h = Obj (length (objs s)) \<and>
      blocks s' = (blocks s)(next_block s \<mapsto>
         \<lparr>shared_count = 1, weak_count = 0,
          kind = MakeSharedControlBlock (length (objs s)) alloc\<rparr>) \<and>
      deref (get h) s' = Some (length (objs s),
         \<lparr>val = v, enable_wp = (if esft then Some WeakPtr else None), in_block = True\<rparr>) \<and>
      objs s' = objs s @
         [Some \<lparr>val = v, enable_wp = (if esft then Some WeakPtr else None), in_block = True\<rparr>] \<and>
      trace s' = trace s @ [Allocate (next_block s)] \<and>
      storage s' = insert (next_block s) (storage s) \<and>
      SharedPtr_use_count h s' = Some 1 \<and>
      makeShared ctor esft args s = allocateShared ctor esft Std_allocator args s"
  using assms
  by (simp add: allocateShared_def makeShared_def SharedPtr_def SharedPtr_use_count_def get_def
      put_block_def emit_def allocate_def deref_def Let_def)

theorem allocateShared_result_witness:
  "\<exists>h s'. allocateShared (\<lambda>(a, b). Inr (a + b) :: unit + nat) False (Custom_allocator 7)
        (1 :: nat, 2 :: nat) empty_state = (Inr h, s') \<and>
      get h = Obj 0 \<and> sp_cb h = Some 0 \<and>
      blocks s' 0 = Some \<lparr>shared_count = 1, weak_count = 0,
          kind = MakeSharedControlBlock 0 (Custom_allocator 7)\<rparr> \<and>
      objs s' = [Some \<lparr>val = 3, enable_wp = None, in_block = True\<rparr>] \<and>
      trace s' = [Allocate 0]"
  using allocateShared_result[of "\<lambda>(a, b). Inr (a + b) :: unit + nat" "(1 :: nat, 2 :: nat)" 3
      False "Custom_allocator 7" empty_state]
  by (auto simp add: empty_state_def)

subsection \<open>C6: a constructor that throws\<close>

text \<open>
  C6, as amended. When the constructor of the payload throws, \<open>allocateShared\<close>
  produces no handle and passes the exception on. No control block and no object has
  been added or changed. The storage that was allocated for the block is not freed: it
  stays in \<open>storage\<close>, the trace has gained its \<open>Allocate\<close> event and no
  \<open>Deallocate\<close> event, and nothing refers to it.
\<close>

theorem allocateShared_ctor_throws:
  assumes "ctor args = Inl x"
  shows "allocateShared ctor esft alloc args s =
     (Inl x, s\<lparr>storage := insert (next_block s) (storage s),
               next_block := Suc (next_block s),
               trace := trace s @ [Allocate (next_block s)]\<rparr>)"
  using assms
  by (simp add: allocateShared_def allocate_def emit_def)

theorem allocateShared_ctor_throws_witness:
  "allocateShared (\<lambda>n. if n = 0 then Inl ''zero'' else Inr n) False Std_allocator (0 :: nat)
      (empty_state :: nat state) =
     (Inl ''zero'', \<lparr>blocks = Map.empty, storage = {0}, next_block = 1, objs = [],
                     trace = [Allocate 0]\<rparr>)"
  using allocateShared_ctor_throws[of "\<lambda>n. if n = 0 then Inl ''zero'' else Inr n" "0 :: nat"
      "''zero''" False Std_allocator "empty_state :: nat state"]
  by (simp add: empty_state_def)

text \<open>
  C6 as stated says that the storage is freed. It is not: after the exception the
  allocation is still held and no deallocation has been recorded.
\<close>

theorem allocateShared_ctor_throws_counterexample:
  "fst (allocateShared (\<lambda>n. if n = 0 then Inl ''zero'' else Inr n) False Std_allocator
          (0 :: nat) (empty_state :: nat state)) = Inl ''zero'' \<and>
   storage (snd (allocateShared (\<lambda>n. if n = 0 then Inl ''zero'' else Inr n) False Std_allocator
          (0 :: nat) (empty_state :: nat state))) = {0} \<and>
   trace (snd (allocateShared (\<lambda>n. if n = 0 then Inl ''zero'' else Inr n) False Std_allocator
          (0 :: nat) (empty_state :: nat state))) = [Allocate 0]"
  by (simp add: allocateShared_def allocate_def emit_def empty_state_def)

subsection \<open>C8: self-observation\<close>

text \<open>
  C8. The round trip adopts a pointer to an object of a self-observing type and calls
  \<open>shared_from_this\<close> on the object. Neither step is a call that a program can make:
  the adopting constructors assign to \<open>enable_wp\<close>, private in
  \<open>EnableSharedFromThis\<close>, whose friend declaration names \<open>SharePtr\<close>; and
  \<open>shared_from_this\<close> calls the private \<open>SharedPtr(const WeakPtr<T>&)\<close>, of which
  \<open>EnableSharedFromThis\<close> is no friend. There is no handle \<open>s\<close> and no handle \<open>s2\<close>.
\<close>

theorem shared_from_this_ill_formed:
  "\<not> accessible SharedPtr_scope EnableSharedFromThis_scope \<and>
   \<not> accessible EnableSharedFromThis_scope SharedPtr_scope \<and>
   SharedPtr_adopt True p s = None \<and>
   SharedPtr_adopt_deleter True p d s = None \<and>
   SharedPtr_adopt_deleter_alloc True p d al s = None \<and>
   shared_from_this q s = None \<and>
   (case makeShared (\<lambda>_. Inr v) True () s of
      (Inl x, s') \<Rightarrow> False
    | (Inr h, s') \<Rightarrow> shared_from_this (get h) s' = None)"
  by (simp add: header_accesses makeShared_def allocateShared_def split_beta Let_def)

subsection \<open>C9: adoption with the default policy\<close>

text \<open>
  C9. For a type that is not self-observing, \<open>SharedPtr(U* p)\<close> allocates one new
  block, a \<open>RegularControlBlock\<close> with \<open>default_delete\<close> and \<open>std::allocator\<close> that
  holds \<open>p\<close>, leaves it with strong counter 1 and weak counter 0, and returns a handle
  to it. For a self-observing type the constructor is ill-formed: nothing is adopted and
  no embedded weak handle is set.
\<close>

theorem adopt_default_policy:
  "(\<exists>h s'. SharedPtr_adopt False p s = Some (h, s') \<and>
      get h = p \<and> sp_cb h = Some (next_block s) \<and>
      blocks s' = (blocks s)(next_block s \<mapsto>
         \<lparr>shared_count = 1, weak_count = 0,
          kind = RegularControlBlock p Default_delete Std_allocator\<rparr>) \<and>
      storage s' = insert (next_block s) (storage s) \<and>
      trace s' = trace s @ [Allocate (next_block s)] \<and>
      objs s' = objs s) \<and>
   SharedPtr_adopt True p s = None"
  by (simp add: SharedPtr_adopt_result get_def)

subsection \<open>C10: adopting a null pointer\<close>

text \<open>
  C10. Adopting a null pointer allocates a control block and sets its strong counter to
  one: the handle has \<open>use_count() = 1\<close> and \<open>get()\<close> null, whereas the
  default-constructed handle has \<open>use_count() = 0\<close> and \<open>get()\<close> null. This is so for
  every type whose adoption is a call that a program can make.
\<close>

theorem adopt_nullptr_is_not_empty:
  "SharedPtr_adopt False nullptr s =
     Some (\<lparr>sp_ptr = nullptr, sp_cb = Some (next_block s)\<rparr>,
           s\<lparr>blocks := (blocks s)(next_block s \<mapsto>
                \<lparr>shared_count = 1, weak_count = 0,
                 kind = RegularControlBlock nullptr Default_delete Std_allocator\<rparr>),
             storage := insert (next_block s) (storage s),
             next_block := Suc (next_block s),
             trace := trace s @ [Allocate (next_block s)]\<rparr>) \<and>
   (\<forall>esft h s'. SharedPtr_adopt esft nullptr s = Some (h, s') \<longrightarrow>
      SharedPtr_use_count h s' = Some 1 \<and> get h = nullptr) \<and>
   SharedPtr_use_count SharedPtr s = Some 0 \<and> get SharedPtr = nullptr"
proof -
  have "SharedPtr_use_count h s' = Some 1 \<and> get h = nullptr"
    if "SharedPtr_adopt esft nullptr s = Some (h, s')" for esft h s'
    using that
    by (cases esft) (auto simp: SharedPtr_adopt_result SharedPtr_use_count_def get_def)
  then show ?thesis
    by (simp add: SharedPtr_adopt_result SharedPtr_use_count_def get_def SharedPtr_def)
qed

theorem adopt_nullptr_is_not_empty_witness:
  "\<exists>h s'. SharedPtr_adopt False nullptr (empty_state :: unit state) = Some (h, s') \<and>
     SharedPtr_use_count h s' = Some 1 \<and> get h = nullptr \<and> sp_cb h = Some 0 \<and>
     trace s' = [Allocate 0] \<and>
     SharedPtr_use_count SharedPtr (empty_state :: unit state) = Some 0"
proof -
  note t = adopt_nullptr_is_not_empty[of "empty_state :: unit state"]
  from t obtain h s' where r: "SharedPtr_adopt False nullptr (empty_state :: unit state) = Some (h, s')"
    "sp_cb h = Some 0" "trace s' = [Allocate 0]"
    by (simp add: empty_state_def)
  from t r(1) have "SharedPtr_use_count h s' = Some 1 \<and> get h = nullptr"
    by blast
  moreover from t have "SharedPtr_use_count SharedPtr (empty_state :: unit state) = Some 0"
    by blast
  ultimately show ?thesis using r by blast
qed

section \<open>Claims about programs\<close>

text \<open>
  The claims of this section are about the configurations that a program reaches from
  the empty one. A program is a sequence of operations that runs to its end; a call
  that is ill-formed, such as the adoption of an object of a self-observing type, is
  not one of them. Where a claim depends on a counter of a block \<open>b\<close> that has not
  wrapped, the theorem asks no more than that: that fewer than \<open>2\<^sup>3\<^sup>2\<close> strong handles
  on \<open>b\<close> are alive in every configuration that the program passes through
  (\<open>always (few_strong b)\<close>), or that fewer than \<open>2\<^sup>3\<^sup>2\<close> strong or weak handles on \<open>b\<close>
  are alive where the question is asked (\<open>few_strong b\<close>, \<open>few_weak b\<close>). The handles
  on other blocks, the handles of the other kind on \<open>b\<close>, and the handles that the
  program has made and released again are as many as they may be.
\<close>

subsection \<open>C1: release in two phases\<close>




subsection \<open>C2: the payload is destroyed once\<close>

text \<open>
  C2, as amended. Let \<open>h\<close> be the handle that \<open>SharedPtr(U*)\<close>, \<open>SharedPtr(U*, Delete)\<close>
  or the factory has just made, \<open>b\<close> its block, and let fewer than \<open>2\<^sup>3\<^sup>2\<close> strong handles
  on \<open>b\<close> be alive at any one time from there on. Then in every later configuration
  \<open>e\<close>: while a strong handle on \<open>b\<close> is alive no payload destruction of \<open>b\<close> has
  happened; when none is alive exactly one has happened, and it is the destruction of
  the pointer \<open>get()\<close> of \<open>h\<close>, the adopted pointer or the address of the object in the
  block. The release of a strong handle on \<open>b\<close> that is not the last leaves the payload
  alone, and the release of the last one is the step that destroys it.
\<close>

theorem payload_destroyed_once:
  assumes "run ops init = Some c" and "stores_pointer x" and "exec x c = Some d"
    and "sp_at d (length (sps c)) = Some h" and "sp_cb h = Some b"
    and "run ops' d = Some e" and "always (few_strong b) ops' d"
  shows "b = next_block (heap c) \<and>
         (0 < strong_refs e b \<longrightarrow> filter (is_destroy b) (trace (heap e)) = []) \<and>
         (strong_refs e b = 0 \<longrightarrow>
            (\<exists>ev. destroys b (get h) ev \<and> filter (is_destroy b) (trace (heap e)) = [ev])) \<and>
         (\<forall>j g e'. sp_at e j = Some g \<and> sp_cb g = Some b \<and>
              (exec (Release j) e = Some e' \<or> exec (Reset j) e = Some e') \<longrightarrow>
            strong_refs e' b + 1 = strong_refs e b \<and>
            (if strong_refs e b = 1
             then \<exists>ev. destroys b (get h) ev \<and> filter (is_destroy b) (trace (heap e')) = [ev]
             else filter (is_destroy b) (trace (heap e')) = []))"
proof -
  from assms(1) have okc: "config_ok c" by (rule config_ok_reached)
  from okc assms(3) have okd: "config_ok d" by (rule config_ok_exec)
  from okd assms(6) have ok: "config_ok e" by (rule config_ok_run)
  from stores_pointer_built[OF okc assms(2,3,4)] assms(5)
  have b: "b = next_block (heap c)" and "life b (sp_ptr h) d" by simp_all
  from life_run[OF okd this(2) assms(6,7)] have l: "life b (get h) e" by (simp add: get_def)
  from always_last[OF assms(6,7)] have f: "few_strong b e" .
  note 1 = life_destroyed[OF l]
  have 2: "strong_refs e' b + 1 = strong_refs e b \<and>
            (if strong_refs e b = 1
             then \<exists>ev. destroys b (get h) ev \<and> filter (is_destroy b) (trace (heap e')) = [ev]
             else filter (is_destroy b) (trace (heap e')) = [])"
    if g: "sp_at e j = Some g" "sp_cb g = Some b"
      and x: "exec (Release j) e = Some e' \<or> exec (Reset j) e = Some e'" for j g e'
  proof -
    from release_refs[OF g x] have s: "strong_refs e' b + 1 = strong_refs e b" .
    have "acts b e e'"
      using x config_ok_acts[OF ok] by blast
    from life_acts[OF ok f l this] have l': "life b (get h) e'" .
    from s have "strong_refs e b = 1 \<longleftrightarrow> strong_refs e' b = 0" by auto
    with life_destroyed[OF l'] s show ?thesis by auto
  qed
  from b 1 2 show ?thesis by blast
qed

theorem payload_destroyed_once_witness:
  "\<exists>c d h e e'. run [New () False] (init :: unit config) = Some c \<and>
     stores_pointer (Adopt False (Obj 0) :: unit op) \<and>
     exec (Adopt False (Obj 0)) c = Some d \<and>
     sp_at d (length (sps c)) = Some h \<and> sp_cb h = Some 0 \<and> get h = Obj 0 \<and>
     run [Copy 0, Release 0] d = Some e \<and> always (few_strong 0) [Copy 0, Release 0] d \<and>
     strong_refs e 0 = 1 \<and> filter (is_destroy 0) (trace (heap e)) = [] \<and>
     exec (Release 1) e = Some e' \<and>
     (\<exists>ev. destroys 0 (Obj 0) ev \<and> filter (is_destroy 0) (trace (heap e')) = [ev])"
proof -
  obtain c d h e g e' where c: "run [New () False] (init :: unit config) = Some c"
    "stores_pointer (Adopt False (Obj 0) :: unit op)"
    "exec (Adopt False (Obj 0)) c = Some d"
    "sp_at d (length (sps c)) = Some h" "sp_cb h = Some 0"
    "run [Copy 0, Release 0] d = Some e" "always (few_strong 0) [Copy 0, Release 0] d"
    and g: "get h = Obj 0" "strong_refs e 0 = 1" "sp_at e 1 = Some g" "sp_cb g = Some 0"
      "exec (Release 1) e = Some e'"
    by (simp add: op_defs heap_defs dtor_defs adopt_results new_obj_def Let_def few_strong_def
        strong_refs_def sp_block_def get_def stores_pointer_def SharedPtr_copy_def
        inc_shared_count_def SharedPtr_dtor_def)
  note t = payload_destroyed_once[OF c]
  from t g(2) have 1: "filter (is_destroy 0) (trace (heap e)) = []" by simp
  from t have "\<forall>j g e'. sp_at e j = Some g \<and> sp_cb g = Some 0 \<and>
              (exec (Release j) e = Some e' \<or> exec (Reset j) e = Some e') \<longrightarrow>
            strong_refs e' 0 + 1 = strong_refs e 0 \<and>
            (if strong_refs e 0 = 1
             then \<exists>ev. destroys 0 (get h) ev \<and> filter (is_destroy 0) (trace (heap e')) = [ev]
             else filter (is_destroy 0) (trace (heap e')) = [])"
    by blast
  with g(3,4,5) have "if strong_refs e 0 = 1
             then \<exists>ev. destroys 0 (get h) ev \<and> filter (is_destroy 0) (trace (heap e')) = [ev]
             else filter (is_destroy 0) (trace (heap e')) = []"
    by (metis (no_types, lifting))
  with g(1,2) have 2: "\<exists>ev. destroys 0 (Obj 0) ev \<and> filter (is_destroy 0) (trace (heap e')) = [ev]"
    by simp
  from c g(1,2,5) 1 2 show ?thesis by blast
qed

text \<open>
  C2 as stated fails where the strong counter wraps. An object is adopted and its handle
  copied \<open>2\<^sup>3\<^sup>2\<close> times: the strong counter is 1 with \<open>2\<^sup>3\<^sup>2 + 1\<close> strong handles alive.
  The release of one of them deletes the object and releases the block, and handle 1 is
  still alive, on a block that is gone and an object that has been destroyed.
\<close>

theorem payload_destroyed_once_counterexample:
  "do {
     c \<leftarrow> run ((New () False # Adopt False (Obj 0) # replicate (Suc (Suc wrap_copies)) (Copy 0)) @
                [Release 0]) (init :: unit config);
     h \<leftarrow> sp_at c 1;
     Some (h, objs (heap c), trace (heap c))
   } = Some (\<lparr>sp_ptr = Obj 0, sp_cb = Some 0\<rparr>, [None],
             [Allocate 0, Deleter_call 0 Default_delete (Obj 0), Deallocate 0 Std_allocator])"
  unfolding run_append run_new_adopt_copies
  by (simp add: op_defs heap_defs dtor_defs Let_def of_nat_wrap_copies SharedPtr_dtor_def)

text \<open>
  The adopting constructor with a deleter and an allocator leaves \<open>ptr\<close> of its block
  null: when the last strong handle goes, the deleter is called on the null pointer, and
  the adopted object is not touched.
\<close>

lemma adopt_deleter_alloc_loses_pointer:
  "do {
     c \<leftarrow> run [New () False, Adopt_deleter_alloc False (Obj 0) (Custom_delete 7) (Custom_allocator 3),
                Release 0] (init :: unit config);
     Some (objs (heap c), trace (heap c))
   } = Some ([Some \<lparr>val = (), enable_wp = None, in_block = False\<rparr>],
             [Allocate 0, Deleter_call 0 (Custom_delete 7) nullptr,
              Deallocate 0 (Custom_allocator 3)])"
  by (simp add: op_defs heap_defs dtor_defs new_obj_def adopt_results SharedPtr_dtor_def Let_def)

subsection \<open>C4: \<open>use_count()\<close> counts the strong handles\<close>




subsection \<open>C7: \<open>expired()\<close>\<close>




end
